theory Spec2Isabelle
  imports Complex_Main
begin

section \<open>Errors\<close>

text \<open>
  A failed \<^verbatim>\<open>assert\<close> of the program and an exception thrown by the image library
  (a sub-matrix request outside the matrix, a mask of the wrong size) both abort the
  operation; they are the two error values of the model.
\<close>

datatype error = AssertionFailed | CvException

section \<open>Application: discovery, assembly and calibration data\<close>

subsection \<open>Camera discovery loop\<close>

text \<open>
  The \<^verbatim>\<open>while (true)\<close> loop of \<^verbatim>\<open>Application::AvailableVideoProviders\<close>.
  \<open>works d\<close> says that \<^verbatim>\<open>CameraVideoProvider(d)\<close> yields a frame
  (\<^verbatim>\<open>provider->begin() != provider->end()\<close>). The loop variables \<open>device\<close> and
  \<open>errors\<close> only grow from 0, so they are natural numbers. The result is the list of
  working devices pushed so far together with the final values of \<open>device\<close> and
  \<open>errors\<close>.
\<close>

function scan_devices ::
  "nat \<Rightarrow> nat \<Rightarrow> (nat \<Rightarrow> bool) \<Rightarrow> nat \<Rightarrow> nat \<Rightarrow> nat list \<Rightarrow> nat list \<times> nat \<times> nat" where
  "scan_devices skip tests works device errors found =
     (if works device then
        (if device + 1 \<ge> tests then (found @ [device], device + 1, errors)
         else scan_devices skip tests works (device + 1) errors (found @ [device]))
      else if errors + 1 \<ge> skip then (found, device, errors + 1)
      else if device + 1 \<ge> tests then (found, device + 1, errors + 1)
      else scan_devices skip tests works (device + 1) (errors + 1) found)"
  by pat_completeness auto
termination
  by (relation "measure (\<lambda>(skip, tests, works, device, errors, found). tests - device)") auto

declare scan_devices.simps [simp del]

text \<open>
  \<^verbatim>\<open>Frameset::kMaxArity\<close> is declared in a header that is not part of the sources at
  hand; it is the parameter \<open>kMaxArity\<close>.
\<close>

definition discovered_devices :: "nat \<Rightarrow> (nat \<Rightarrow> bool) \<Rightarrow> nat list" where
  "discovered_devices kMaxArity works =
     fst (scan_devices kMaxArity (2 * kMaxArity) works 0 0 [])"

text \<open>
  The number of devices the loop has opened when it ends: on the error exit \<open>device\<close>
  was not incremented after the last probe.
\<close>

definition probes_made :: "nat \<Rightarrow> (nat \<Rightarrow> bool) \<Rightarrow> nat" where
  "probes_made kMaxArity works =
     (case scan_devices kMaxArity (2 * kMaxArity) works 0 0 [] of
        (found, device, errors) \<Rightarrow> if errors \<ge> kMaxArity then device + 1 else device)"

definition failures_seen :: "nat \<Rightarrow> (nat \<Rightarrow> bool) \<Rightarrow> nat" where
  "failures_seen kMaxArity works =
     (case scan_devices kMaxArity (2 * kMaxArity) works 0 0 [] of
        (found, device, errors) \<Rightarrow> errors)"

text \<open>
  The discovery rule as the specification words it: the failure counter counts
  \<^emph>\<open>consecutive\<close> misses, so a device that opens resets it.
\<close>

function scan_consecutive ::
  "nat \<Rightarrow> nat \<Rightarrow> (nat \<Rightarrow> bool) \<Rightarrow> nat \<Rightarrow> nat \<Rightarrow> nat list \<Rightarrow> nat list" where
  "scan_consecutive skip tests works device misses found =
     (if works device then
        (if device + 1 \<ge> tests then found @ [device]
         else scan_consecutive skip tests works (device + 1) 0 (found @ [device]))
      else if misses + 1 \<ge> skip then found
      else if device + 1 \<ge> tests then found
      else scan_consecutive skip tests works (device + 1) (misses + 1) found)"
  by pat_completeness auto
termination
  by (relation "measure (\<lambda>(skip, tests, works, device, misses, found). tests - device)") auto

declare scan_consecutive.simps [simp del]

definition discovered_consecutive :: "nat \<Rightarrow> (nat \<Rightarrow> bool) \<Rightarrow> nat list" where
  "discovered_consecutive kMaxArity works =
     scan_consecutive kMaxArity (2 * kMaxArity) works 0 0 []"

subsection \<open>Application state\<close>

text \<open>
  A \<^verbatim>\<open>CameraVideoProvider\<close> object is identified by the device index it was opened
  on. A pointer to a provider (raw, or held by a \<^verbatim>\<open>unique_ptr\<close>) is \<open>Some d\<close>, the
  null pointer is \<open>None\<close>; a \<^verbatim>\<open>unique_ptr\<close> is \<open>None\<close> after \<^verbatim>\<open>release()\<close>.
\<close>

type_synonym provider_ptr = "nat option"

record CalibrationData =
  cd_arity :: nat
  cd_payload :: nat

text \<open>
  Modelled from the spec: the class \<^verbatim>\<open>Controller\<close> is not part of the sources at hand.
  Per the specification it is parameterized by its arity (the camera count) at
  construction, owns the sources handed to it, accepts externally supplied calibration
  data by keeping its own copy, and is started asynchronously.
\<close>

record Controller =
  ctl_arity :: nat
  ctl_providers :: "provider_ptr list"
  ctl_calibration :: "CalibrationData option"

datatype signal =
    SetupPipeline
  | CalibrationDataReady CalibrationData
  | StartInvoked bool

text \<open>
  The members of \<^verbatim>\<open>Application\<close> that the operations below read or write. Two logs
  make effects observable: \<open>emitted\<close> records the signals emitted (and the queued
  invocation of \<^verbatim>\<open>Start\<close>), \<open>disposed\<close> records the providers whose owner was
  destroyed.
\<close>

record Application =
  arity :: nat
  available_providers :: "provider_ptr list"
  controller :: "Controller option"
  converter :: "nat option"
  calibration_data :: "CalibrationData option"
  emitted :: "signal list"
  disposed :: "nat list"

definition Application_new :: Application where
  "Application_new =
     \<lparr>arity = 0, available_providers = [], controller = None, converter = None,
      calibration_data = None, emitted = [], disposed = []\<rparr>"

text \<open>Destroying a vector of owning pointers deletes every object still owned.\<close>

definition owned :: "provider_ptr list \<Rightarrow> nat list" where
  "owned ps = concat (map (\<lambda>p. case p of None \<Rightarrow> [] | Some d \<Rightarrow> [d]) ps)"

text \<open>
  Modelled from the spec: \<^verbatim>\<open>SwapAndDestroy\<close> is not part of the sources at hand.
  It installs the new object in the member and destroys the old one (deferred); a
  destroyed controller takes the sources it owns with it (they are disposed, not
  returned to the pool).
\<close>

definition SwapAndDestroy_controller :: "Controller option \<Rightarrow> Application \<Rightarrow> Application" where
  "SwapAndDestroy_controller new s =
     s\<lparr>controller := new,
       disposed := disposed s @
         (case controller s of None \<Rightarrow> [] | Some c \<Rightarrow> owned (ctl_providers c))\<rparr>"

definition SwapAndDestroy_converter :: "nat option \<Rightarrow> Application \<Rightarrow> Application" where
  "SwapAndDestroy_converter new s = s\<lparr>converter := new\<rparr>"

definition TeardownController :: "Application \<Rightarrow> Application" where
  "TeardownController s = SwapAndDestroy_controller None s"

definition TeardownConverter :: "Application \<Rightarrow> Application" where
  "TeardownConverter s = SwapAndDestroy_converter None s"

definition InitializeEmpty :: "Application \<Rightarrow> Application" where
  "InitializeEmpty s =
     (let s1 = s\<lparr>available_providers := [],
                 disposed := disposed s @ owned (available_providers s)\<rparr>;
          s2 = s1\<lparr>arity := 0\<rparr>;
          s3 = TeardownConverter s2;
          s4 = TeardownController s3
      in s4\<lparr>emitted := emitted s4 @ [SetupPipeline]\<rparr>)"

definition AvailableVideoProviders ::
  "nat \<Rightarrow> (nat \<Rightarrow> bool) \<Rightarrow> Application \<Rightarrow> provider_ptr list \<times> Application" where
  "AvailableVideoProviders kMaxArity works s =
     (let s1 = InitializeEmpty s;
          found = discovered_devices kMaxArity works;
          s2 = s1\<lparr>available_providers := available_providers s1 @ map Some found\<rparr>
      in (available_providers s2, s2))"

text \<open>
  The inner loop of \<^verbatim>\<open>Initialize\<close>: the first owner whose pointer equals the chosen
  one releases it; \<open>None\<close> when no owner matches (\<^verbatim>\<open>released\<close> stays false).
\<close>

fun release_provider :: "provider_ptr \<Rightarrow> provider_ptr list \<Rightarrow> provider_ptr list option" where
  "release_provider p [] = None"
| "release_provider p (owner # owners) =
     (if owner = p then Some (None # owners)
      else map_option ((#) owner) (release_provider p owners))"

text \<open>The outer loop, with \<^verbatim>\<open>assert(released)\<close>.\<close>

fun claim_providers ::
  "provider_ptr list \<Rightarrow> provider_ptr list \<Rightarrow> provider_ptr list \<Rightarrow>
   error + (provider_ptr list \<times> provider_ptr list)" where
  "claim_providers [] available used = Inr (available, used)"
| "claim_providers (p # ps) available used =
     (case release_provider p available of
        None \<Rightarrow> Inl AssertionFailed
      | Some available' \<Rightarrow> claim_providers ps available' (used @ [p]))"

definition SetupController :: "provider_ptr list \<Rightarrow> Application \<Rightarrow> error + Application" where
  "SetupController providers s =
     (if length providers > 0 then
        Inr (SwapAndDestroy_controller
               (Some \<lparr>ctl_arity = arity s, ctl_providers = providers, ctl_calibration = None\<rparr>) s)
      else Inl AssertionFailed)"

definition SetupConverter :: "Application \<Rightarrow> error + Application" where
  "SetupConverter s =
     (case controller s of
        None \<Rightarrow> Inl AssertionFailed
      | Some c \<Rightarrow> Inr (SwapAndDestroy_converter (Some (arity s)) s))"

definition Initialize :: "provider_ptr list \<Rightarrow> Application \<Rightarrow> error + Application" where
  "Initialize providers s =
     (case claim_providers providers (available_providers s) [] of
        Inl e \<Rightarrow> Inl e
      | Inr (available, used_providers) \<Rightarrow>
          (let s1 = s\<lparr>available_providers := [], disposed := disposed s @ owned available\<rparr>;
               s2 = s1\<lparr>arity := length used_providers\<rparr>
           in case SetupController used_providers s2 of
                Inl e \<Rightarrow> Inl e
              | Inr s3 \<Rightarrow>
                  (case SetupConverter s3 of
                     Inl e \<Rightarrow> Inl e
                   | Inr s4 \<Rightarrow>
                       Inr (s4\<lparr>emitted := emitted s4 @ [SetupPipeline, StartInvoked False]\<rparr>))))"

text \<open>
  \<^verbatim>\<open>Application::SetCalibrationData\<close>. The emitted signal is connected (in
  \<^verbatim>\<open>SetupController\<close>) to the controller's own \<^verbatim>\<open>SetCalibrationData\<close> slot, which
  receives the data by value.
\<close>

definition SetCalibrationData :: "CalibrationData \<Rightarrow> Application \<Rightarrow> error + Application" where
  "SetCalibrationData d s =
     (case controller s of
        None \<Rightarrow> Inl AssertionFailed
      | Some c \<Rightarrow>
          if ctl_arity c = cd_arity d then
            Inr (s\<lparr>calibration_data := Some d,
                   controller := Some (c\<lparr>ctl_calibration := Some d\<rparr>),
                   emitted := emitted s @ [CalibrationDataReady d]\<rparr>)
          else Inl AssertionFailed)"

section \<open>Template tracker\<close>

subsection \<open>Matrices, rectangles and marks\<close>

text \<open>
  A \<^verbatim>\<open>cv::Mat\<close> of one channel: its \<^verbatim>\<open>rows\<close> and \<^verbatim>\<open>cols\<close> (C++ \<^verbatim>\<open>int\<close>) and
  its cells, row by row. Images and masks hold integers (8-bit values), score maps hold
  reals. A matrix is well-formed when its cells fill its rows and columns. The C++
  \<^verbatim>\<open>int\<close> values (sizes, coordinates, counters) are unbounded integers here: they stay
  far from the 32-bit range.
\<close>

record 'a Mat =
  rows :: int
  cols :: int
  cells :: "'a list list"

definition wf_Mat :: "'a Mat \<Rightarrow> bool" where
  "wf_Mat m \<longleftrightarrow>
     0 \<le> rows m \<and> 0 \<le> cols m \<and> length (cells m) = nat (rows m) \<and>
     list_all (\<lambda>r. length r = nat (cols m)) (cells m)"

definition Mat_empty :: "'a Mat" where
  "Mat_empty = \<lparr>rows = 0, cols = 0, cells = []\<rparr>"

text \<open>
  The cell in column \<open>i\<close> of row \<open>j\<close> (\<^verbatim>\<open>cv::Point(i, j)\<close>); it is read only at
  positions inside a well-formed matrix.
\<close>

definition cell :: "'a Mat \<Rightarrow> int \<times> int \<Rightarrow> 'a" where
  "cell m p = cells m ! nat (snd p) ! nat (fst p)"

record Rect =
  rect_x :: int
  rect_y :: int
  rect_width :: int
  rect_height :: int

type_synonym Point = "int \<times> int"

text \<open>\<^verbatim>\<open>cv::Rect(pt1, pt2)\<close>: the rectangle spanned by two corner points.\<close>

definition Rect_of_points :: "Point \<Rightarrow> Point \<Rightarrow> Rect" where
  "Rect_of_points pt1 pt2 =
     \<lparr>rect_x = min (fst pt1) (fst pt2), rect_y = min (snd pt1) (snd pt2),
      rect_width = max (fst pt1) (fst pt2) - min (fst pt1) (fst pt2),
      rect_height = max (snd pt1) (snd pt2) - min (snd pt1) (snd pt2)\<rparr>"

text \<open>\<^verbatim>\<open>cv::Rect(cv::Point(0, 0), data.size())\<close>.\<close>

definition whole_image :: "'a Mat \<Rightarrow> Rect" where
  "whole_image data = \<lparr>rect_x = 0, rect_y = 0, rect_width = cols data, rect_height = rows data\<rparr>"

definition tl :: "Rect \<Rightarrow> Point" where
  "tl r = (rect_x r, rect_y r)"

definition br :: "Rect \<Rightarrow> Point" where
  "br r = (rect_x r + rect_width r, rect_y r + rect_height r)"

text \<open>\<^verbatim>\<open>a &= b\<close> on rectangles: the intersection, the zero rectangle when it is empty.\<close>

definition rect_and :: "Rect \<Rightarrow> Rect \<Rightarrow> Rect" where
  "rect_and a b =
     (let x1 = max (rect_x a) (rect_x b);
          y1 = max (rect_y a) (rect_y b);
          w = min (rect_x a + rect_width a) (rect_x b + rect_width b) - x1;
          h = min (rect_y a + rect_height a) (rect_y b + rect_height b) - y1
      in if w \<le> 0 \<or> h \<le> 0
         then \<lparr>rect_x = 0, rect_y = 0, rect_width = 0, rect_height = 0\<rparr>
         else \<lparr>rect_x = x1, rect_y = y1, rect_width = w, rect_height = h\<rparr>)"

text \<open>
  \<^verbatim>\<open>m(roi)\<close>: the sub-matrix under a rectangle. The library throws when the rectangle
  does not lie inside the matrix.
\<close>

definition crop :: "'a Mat \<Rightarrow> Rect \<Rightarrow> 'a Mat option" where
  "crop m r =
     (if 0 \<le> rect_x r \<and> 0 \<le> rect_width r \<and> rect_x r + rect_width r \<le> cols m \<and>
         0 \<le> rect_y r \<and> 0 \<le> rect_height r \<and> rect_y r + rect_height r \<le> rows m
      then Some \<lparr>rows = rect_height r, cols = rect_width r,
                 cells = map (\<lambda>row. take (nat (rect_width r)) (drop (nat (rect_x r)) row))
                           (take (nat (rect_height r)) (drop (nat (rect_y r)) (cells m)))\<rparr>
      else None)"

text \<open>
  The declarations of \<^verbatim>\<open>Mark\<close> and \<^verbatim>\<open>Point2\<close> are not part of the sources at hand.
  The program prints a mark's radius and the coordinates of its center with \<^verbatim>\<open>%f\<close>
  and converts integer locations to \<^verbatim>\<open>Point2\<close> explicitly: they are floating-point
  numbers, which are real numbers here. \<^verbatim>\<open>Search\<close> only adds integer coordinates
  converted to floating point, which is exact below \<open>2^24\<close>.
\<close>

datatype MarkType = kCircle | kRectangle

type_synonym Point2 = "real \<times> real"

record Mark =
  mark_type :: MarkType
  center :: Point2
  radius :: real

text \<open>Conversion of a floating-point value to \<^verbatim>\<open>int\<close> truncates towards zero.\<close>

definition to_int :: "real \<Rightarrow> int" where
  "to_int v = (if 0 \<le> v then \<lfloor>v\<rfloor> else \<lceil>v\<rceil>)"

record TemplateData =
  search_template :: "int Mat"
  tpl_radius :: real

definition TemplateData_new :: TemplateData where
  "TemplateData_new = \<lparr>search_template = Mat_empty, tpl_radius = 0\<rparr>"

text \<open>
  Modelled from the spec: \<^verbatim>\<open>TemplateData::TopLeft\<close> and \<^verbatim>\<open>TemplateData::BottomRight\<close>
  are declared in a header that is not part of the sources at hand. Per the specification
  they move a point outward by the template's half-size: up and left, respectively down
  and right; called without an argument they apply to the origin.
\<close>

definition TopLeft :: "TemplateData \<Rightarrow> Point \<Rightarrow> Point" where
  "TopLeft tpl p =
     (fst p - cols (search_template tpl) div 2, snd p - rows (search_template tpl) div 2)"

definition BottomRight :: "TemplateData \<Rightarrow> Point \<Rightarrow> Point" where
  "BottomRight tpl p =
     (fst p + cols (search_template tpl) div 2, snd p + rows (search_template tpl) div 2)"

subsection \<open>Floating-point arithmetic\<close>

text \<open>
  The arithmetic on a mark's center and radius is floating-point arithmetic: every
  operation yields the exact result rounded to the format. The format (single or double
  precision) is fixed by the declaration of \<^verbatim>\<open>Mark\<close>, which is not at hand, so the
  rounding function \<open>rnd\<close> of the format is a parameter of \<^verbatim>\<open>InitTrackerData\<close>. Values
  are finite; infinities, NaN and overflow are not modelled.

  \<open>round_binary p\<close> is the rounding of binary floating point with \<open>p\<close> significant bits
  (24 for single, 53 for double precision), to nearest with ties to even, with an
  unbounded exponent range.
\<close>

definition rne :: "real \<Rightarrow> int" where
  "rne t =
     (let f = \<lfloor>t\<rfloor>; d = t - real_of_int f
      in if d < 1/2 then f else if 1/2 < d then f + 1 else if even f then f else f + 1)"

definition expo :: "real \<Rightarrow> int" where
  "expo v = \<lfloor>log 2 \<bar>v\<bar>\<rfloor>"

definition ulp :: "nat \<Rightarrow> real \<Rightarrow> real" where
  "ulp p v = 2 powr real_of_int (expo v - int p + 1)"

definition round_binary :: "nat \<Rightarrow> real \<Rightarrow> real" where
  "round_binary p v = (if v = 0 then 0 else real_of_int (rne (v / ulp p v)) * ulp p v)"

text \<open>
  What the statements below assume of the rounding function: it keeps the sign, it is
  exact on integers up to \<open>2^22\<close> in magnitude, and it moves a value of at most that
  magnitude by at most \<open>1/4\<close>. The rounding of every binary format with at least 24
  significant bits satisfies this.
\<close>

definition float_rounding :: "(real \<Rightarrow> real) \<Rightarrow> bool" where
  "float_rounding rnd \<longleftrightarrow>
     (\<forall>v. 0 \<le> v \<longrightarrow> 0 \<le> rnd v) \<and> (\<forall>v. v \<le> 0 \<longrightarrow> rnd v \<le> 0) \<and>
     (\<forall>n. \<bar>n\<bar> \<le> 2 ^ 22 \<longrightarrow> rnd (real_of_int n) = real_of_int n) \<and>
     (\<forall>v. \<bar>v\<bar> \<le> 2 ^ 22 \<longrightarrow> \<bar>rnd v - v\<bar> \<le> 1/4)"

subsection \<open>InitTrackerData\<close>

text \<open>
  The result is the returned flag together with the member \<^verbatim>\<open>data_\<close> after the call;
  \<open>data0\<close> is the member before the call. In \<^verbatim>\<open>data.cols - radius\<close> the integer is
  converted to the floating-point format and the difference is rounded; so are
  \<^verbatim>\<open>point.x - radius\<close> and \<^verbatim>\<open>2 * radius\<close> before they are truncated to \<^verbatim>\<open>int\<close>.
\<close>

definition InitTrackerData ::
  "(real \<Rightarrow> real) \<Rightarrow> int Mat \<Rightarrow> Mark \<Rightarrow> TemplateData \<Rightarrow> error + (bool \<times> TemplateData)" where
  "InitTrackerData rnd data mark data0 =
     (if mark_type mark \<noteq> kCircle then Inl AssertionFailed
      else
        let point = center mark; r = radius mark in
        if fst point < r \<or> fst point \<ge> rnd (rnd (real_of_int (cols data)) - r) \<or>
           snd point < r \<or> snd point \<ge> rnd (rnd (real_of_int (rows data)) - r)
        then Inr (False, data0)
        else
          let roi = \<lparr>rect_x = to_int (rnd (fst point - r)), rect_y = to_int (rnd (snd point - r)),
                     rect_width = to_int (rnd (2 * r)), rect_height = to_int (rnd (2 * r))\<rparr>
          in case crop data roi of
               None \<Rightarrow> Inl CvException
             | Some patch \<Rightarrow> Inr (True, \<lparr>search_template = patch, tpl_radius = r\<rparr>))"

text \<open>
  The success condition as the specification words it:
  \<open>radius \<le> min(center.x, center.y, width-1-center.x, height-1-center.y)\<close>.
\<close>

definition spec_init_bound :: "int Mat \<Rightarrow> Mark \<Rightarrow> bool" where
  "spec_init_bound data mark \<longleftrightarrow>
     radius mark \<le> min (min (fst (center mark)) (snd (center mark)))
                       (min (real_of_int (cols data) - 1 - fst (center mark))
                            (real_of_int (rows data) - 1 - snd (center mark)))"

subsection \<open>The image library's matching and statistics\<close>

text \<open>
  \<^verbatim>\<open>matchTemplate\<close>, \<^verbatim>\<open>minMaxLoc\<close>, rectangles and sub-matrices belong to the image
  library (OpenCV), not to the program; they are modelled after the library's documented
  behaviour, with exact real arithmetic for the scores.

  \<^verbatim>\<open>matchTemplate\<close> with \<^verbatim>\<open>CV_TM_CCOEFF_NORMED\<close>: the score of a window is the
  correlation coefficient of the template and the window, both taken relative to their
  mean; a window or template without variance scores 0. The score map has one cell for
  every position of the template inside the image.
\<close>

definition centered :: "int list \<Rightarrow> real list" where
  "centered vs =
     (let mean = real_of_int (sum_list vs) / real (length vs)
      in map (\<lambda>v. real_of_int v - mean) vs)"

definition ccoeff_normed :: "int list \<Rightarrow> int list \<Rightarrow> real" where
  "ccoeff_normed ts ws =
     (let t' = centered ts; w' = centered ws;
          num = sum_list (map2 (*) t' w');
          den = sqrt (sum_list (map (\<lambda>v. v * v) t') * sum_list (map (\<lambda>v. v * v) w'))
      in if den = 0 then 0 else num / den)"

definition window :: "'a Mat \<Rightarrow> nat \<Rightarrow> nat \<Rightarrow> nat \<Rightarrow> nat \<Rightarrow> 'a list list" where
  "window img i j w h = map (\<lambda>row. take w (drop i row)) (take h (drop j (cells img)))"

definition matchTemplate :: "int Mat \<Rightarrow> int Mat \<Rightarrow> real Mat" where
  "matchTemplate img templ =
     (let h = rows img - rows templ + 1; w = cols img - cols templ + 1
      in \<lparr>rows = h, cols = w,
          cells = map (\<lambda>j. map (\<lambda>i. ccoeff_normed (concat (cells templ))
                                       (concat (window img i j (nat (cols templ))
                                                  (nat (rows templ)))))
                              [0..<nat w])
                      [0..<nat h]\<rparr>)"

text \<open>The positions of a matrix in scan order: row by row, left to right.\<close>

definition positions :: "'a Mat \<Rightarrow> Point list" where
  "positions m =
     concat (map (\<lambda>j. map (\<lambda>i. (int i, int j)) [0..<nat (cols m)]) [0..<nat (rows m)])"

text \<open>
  \<^verbatim>\<open>minMaxLoc\<close>: the extreme values and the first position (in scan order) of each,
  over the cells whose mask value is not zero when a mask is given. With no cell to look
  at, the library reports the values 0 and the location \<open>(-1, -1)\<close>.
\<close>

fun scan_max :: "(Point \<Rightarrow> real) \<Rightarrow> Point \<Rightarrow> Point list \<Rightarrow> Point" where
  "scan_max f best [] = best"
| "scan_max f best (p # ps) = scan_max f (if f p > f best then p else best) ps"

fun scan_min :: "(Point \<Rightarrow> real) \<Rightarrow> Point \<Rightarrow> Point list \<Rightarrow> Point" where
  "scan_min f best [] = best"
| "scan_min f best (p # ps) = scan_min f (if f p < f best then p else best) ps"

definition masked_positions :: "real Mat \<Rightarrow> int Mat option \<Rightarrow> Point list" where
  "masked_positions m msk =
     (case msk of
        None \<Rightarrow> positions m
      | Some k \<Rightarrow> filter (\<lambda>p. cell k p \<noteq> 0) (positions m))"

definition minMaxLoc :: "real Mat \<Rightarrow> int Mat option \<Rightarrow> real \<times> real \<times> Point \<times> Point" where
  "minMaxLoc m msk =
     (case masked_positions m msk of
        [] \<Rightarrow> (0, 0, (-1, -1), (-1, -1))
      | p # ps \<Rightarrow>
          (let min_loc = scan_min (cell m) p ps; max_loc = scan_max (cell m) p ps
           in (cell m min_loc, cell m max_loc, min_loc, max_loc)))"

subsection \<open>Search\<close>

text \<open>The extended search region (\<^verbatim>\<open>extended_roi\<close>).\<close>

definition extended_roi :: "int Mat \<Rightarrow> TemplateData \<Rightarrow> Rect option \<Rightarrow> Rect" where
  "extended_roi data tpl roi =
     (case roi of
        None \<Rightarrow> whole_image data
      | Some r \<Rightarrow>
          rect_and (Rect_of_points (TopLeft tpl (tl r)) (BottomRight tpl (br r)))
                   (whole_image data))"

definition small_roi :: "int Mat \<Rightarrow> TemplateData \<Rightarrow> Rect option \<Rightarrow> bool" where
  "small_roi data tpl roi \<longleftrightarrow>
     rect_width (extended_roi data tpl roi) < cols (search_template tpl) \<or>
     rect_height (extended_roi data tpl roi) < rows (search_template tpl)"

text \<open>The score map (\<^verbatim>\<open>match_result\<close>).\<close>

definition match_result :: "int Mat \<Rightarrow> TemplateData \<Rightarrow> Rect option \<Rightarrow> error + real Mat" where
  "match_result data tpl roi =
     (case crop data (extended_roi data tpl roi) of
        None \<Rightarrow> Inl CvException
      | Some region \<Rightarrow> Inr (matchTemplate region (search_template tpl)))"

text \<open>
  The mask brought to the score map's coordinates (\<^verbatim>\<open>shifted_mask\<close>), with the two
  assertions on its size.
\<close>

definition shifted_mask ::
  "TemplateData \<Rightarrow> Rect \<Rightarrow> real Mat \<Rightarrow> int Mat \<Rightarrow> error + int Mat" where
  "shifted_mask tpl ext scores msk =
     (case crop msk ext of
        None \<Rightarrow> Inl CvException
      | Some cropped_mask \<Rightarrow>
          (let mask_br = (cols cropped_mask, rows cropped_mask);
               top_left = TopLeft tpl (0, 0);
               bottom_right = BottomRight tpl (0, 0);
               rect0 = Rect_of_points (- fst top_left, - snd top_left)
                         (fst mask_br - fst bottom_right, snd mask_br - snd bottom_right);
               shift_rect = rect0\<lparr>rect_width := rect_width rect0 + 1,
                                  rect_height := rect_height rect0 + 1\<rparr>
           in case crop cropped_mask shift_rect of
                None \<Rightarrow> Inl CvException
              | Some shifted \<Rightarrow>
                  if rows scores = rows shifted \<and> cols scores = cols shifted
                  then Inr shifted else Inl AssertionFailed))"

text \<open>
  The extremes of the score map (the results of \<^verbatim>\<open>minMaxLoc\<close>); \<open>None\<close> on the
  small-region exit. The standard deviation that the program also computes is never
  read, and is left out.
\<close>

definition search_extremes ::
  "int Mat \<Rightarrow> TemplateData \<Rightarrow> Rect option \<Rightarrow> int Mat option \<Rightarrow>
   error + (real \<times> real \<times> Point \<times> Point) option" where
  "search_extremes data tpl roi msk =
     (if small_roi data tpl roi then Inr None
      else
        case match_result data tpl roi of
          Inl e \<Rightarrow> Inl e
        | Inr scores \<Rightarrow>
            (case msk of
               None \<Rightarrow> Inr (Some (minMaxLoc scores None))
             | Some k \<Rightarrow>
                 (case shifted_mask tpl (extended_roi data tpl roi) scores k of
                    Inl e \<Rightarrow> Inl e
                  | Inr shifted \<Rightarrow> Inr (Some (minMaxLoc scores (Some shifted))))))"

text \<open>
  \<^verbatim>\<open>TemplateTracker::Search\<close> with \<^verbatim>\<open>method = CV_TM_CCOEFF_NORMED\<close>: \<open>Inr None\<close> is the
  return value false, \<open>Inr (Some m)\<close> is true with \<open>m\<close> written to \<^verbatim>\<open>*result\<close>. The
  coordinates of the match point are sums of whole numbers within the image's size; a
  binary floating-point format holds them exactly (up to \<open>2^24\<close>), so they are written
  without rounding.
\<close>

definition Search ::
  "int Mat \<Rightarrow> TemplateData \<Rightarrow> Rect option \<Rightarrow> int Mat option \<Rightarrow> real \<Rightarrow> error + Mark option" where
  "Search data tpl roi msk threshold =
     (case search_extremes data tpl roi msk of
        Inl e \<Rightarrow> Inl e
      | Inr None \<Rightarrow> Inr None
      | Inr (Some (min_val, max_val, min_loc, max_loc)) \<Rightarrow>
          (let v = max_val - min_val in
           if v \<le> threshold then Inr None
           else
             let loc = max_loc;
                 top_left = TopLeft tpl (0, 0);
                 tpl_offset = (- fst top_left, - snd top_left);
                 ext = extended_roi data tpl roi;
                 match_point =
                   (real_of_int (fst loc) + real_of_int (fst tpl_offset) + real_of_int (rect_x ext),
                    real_of_int (snd loc) + real_of_int (snd tpl_offset) + real_of_int (rect_y ext))
             in Inr (Some \<lparr>mark_type = kCircle, center = match_point,
                           radius = tpl_radius tpl\<rparr>)))"

section \<open>Derived notions used in the statements\<close>

text \<open>
  The condition under which \<^verbatim>\<open>InitTrackerData\<close> passes its bounds check (the negation of
  the \<^verbatim>\<open>if\<close> that returns false), and the rectangle it then crops.
\<close>

definition init_guard :: "(real \<Rightarrow> real) \<Rightarrow> int Mat \<Rightarrow> Mark \<Rightarrow> bool" where
  "init_guard rnd data mark \<longleftrightarrow>
     radius mark \<le> fst (center mark) \<and>
     fst (center mark) < rnd (rnd (real_of_int (cols data)) - radius mark) \<and>
     radius mark \<le> snd (center mark) \<and>
     snd (center mark) < rnd (rnd (real_of_int (rows data)) - radius mark)"

definition patch_rect :: "(real \<Rightarrow> real) \<Rightarrow> Mark \<Rightarrow> Rect" where
  "patch_rect rnd mark =
     \<lparr>rect_x = to_int (rnd (fst (center mark) - radius mark)),
      rect_y = to_int (rnd (snd (center mark) - radius mark)),
      rect_width = to_int (rnd (2 * radius mark)),
      rect_height = to_int (rnd (2 * radius mark))\<rparr>"

text \<open>
  Scan order of two positions: an earlier row, or the same row and an earlier column.
\<close>

definition scan_before :: "Point \<Rightarrow> Point \<Rightarrow> bool" where
  "scan_before p q \<longleftrightarrow> snd p < snd q \<or> (snd p = snd q \<and> fst p < fst q)"


text \<open>
  The extension of a caller's rectangle as the specification words it: outward by the
  template's half-size in every direction.
\<close>

definition extend_by_half :: "TemplateData \<Rightarrow> Rect \<Rightarrow> Rect" where
  "extend_by_half tpl r =
     \<lparr>rect_x = rect_x r - cols (search_template tpl) div 2,
      rect_y = rect_y r - rows (search_template tpl) div 2,
      rect_width = rect_width r + 2 * (cols (search_template tpl) div 2),
      rect_height = rect_height r + 2 * (rows (search_template tpl) div 2)\<rparr>"

text \<open>
  The mark that \<^verbatim>\<open>Search\<close> writes for a winning score-map location: the location moved
  by the template's half-size and by the origin of the extended region.
\<close>

definition found_mark :: "int Mat \<Rightarrow> TemplateData \<Rightarrow> Rect option \<Rightarrow> Point \<Rightarrow> Mark" where
  "found_mark data tpl roi loc =
     \<lparr>mark_type = kCircle,
      center =
        (real_of_int (fst loc + cols (search_template tpl) div 2 +
                      rect_x (extended_roi data tpl roi)),
         real_of_int (snd loc + rows (search_template tpl) div 2 +
                      rect_y (extended_roi data tpl roi))),
      radius = tpl_radius tpl\<rparr>"

text \<open>
  A point with real coordinates lies in a rectangle (left and top edge inclusive, right
  and bottom edge exclusive).
\<close>

definition rect_contains :: "Rect \<Rightarrow> Point2 \<Rightarrow> bool" where
  "rect_contains r p \<longleftrightarrow>
     real_of_int (rect_x r) \<le> fst p \<and> fst p < real_of_int (rect_x r + rect_width r) \<and>
     real_of_int (rect_y r) \<le> snd p \<and> snd p < real_of_int (rect_y r + rect_height r)"

subsection \<open>Example data\<close>

text \<open>
  A 4-by-3 image whose 2-by-2 patch under the mark at \<open>(1, 1)\<close> with radius 1 occurs
  inverted two columns further right; an image of one colour; and a 5-by-5 image with a
  mark of radius \<open>3/2\<close>, whose template has an odd side.
\<close>

definition example_image :: "int Mat" where
  "example_image = \<lparr>rows = 3, cols = 4, cells = [[1,0,0,1],[0,1,1,0],[0,1,1,0]]\<rparr>"

definition example_mark :: Mark where
  "example_mark = \<lparr>mark_type = kCircle, center = (1, 1), radius = 1\<rparr>"

definition example_template :: TemplateData where
  "example_template =
     \<lparr>search_template = \<lparr>rows = 2, cols = 2, cells = [[1,0],[0,1]]\<rparr>, tpl_radius = 1\<rparr>"

definition example_roi :: Rect where
  "example_roi = \<lparr>rect_x = 1, rect_y = 1, rect_width = 1, rect_height = 1\<rparr>"



definition odd_image :: "int Mat" where
  "odd_image = \<lparr>rows = 5, cols = 5,
     cells = [[0,0,0,0,0],[0,1,2,3,0],[0,4,5,6,0],[0,7,8,9,0],[0,0,0,0,0]]\<rparr>"

definition odd_mark :: Mark where
  "odd_mark = \<lparr>mark_type = kCircle, center = (5/2, 5/2), radius = 3/2\<rparr>"

definition odd_template :: TemplateData where
  "odd_template =
     \<lparr>search_template = \<lparr>rows = 3, cols = 3, cells = [[1,2,3],[4,5,6],[7,8,9]]\<rparr>,
      tpl_radius = 3/2\<rparr>"

definition full_mask :: "int Mat" where
  "full_mask = \<lparr>rows = 5, cols = 5,
     cells = [[255,255,255,255,255],[255,255,255,255,255],[255,255,255,255,255],
              [255,255,255,255,255],[255,255,255,255,255]]\<rparr>"

text \<open>
  An 8-by-4 image whose cell in row \<open>j\<close> and column \<open>i\<close> holds \<open>10 * j + i\<close>.
\<close>

definition rounding_image :: "int Mat" where
  "rounding_image = \<lparr>rows = 4, cols = 8,
     cells = [[0,1,2,3,4,5,6,7],[10,11,12,13,14,15,16,17],
              [20,21,22,23,24,25,26,27],[30,31,32,33,34,35,36,37]]\<rparr>"

section \<open>Properties of discovery\<close>

lemma scan_devices_inv:
  assumes "scan_devices skip tests works device errors found = (f, dv, er)"
    and "device < tests" "errors < skip"
    and "found = filter works [0..<device]"
    and "errors = length (filter (\<lambda>d. \<not> works d) [0..<device])"
  shows "\<exists>n. n = (if er \<ge> skip then dv + 1 else dv) \<and> n \<le> tests \<and> device < n \<and>
           f = filter works [0..<n] \<and>
           er = length (filter (\<lambda>d. \<not> works d) [0..<n]) \<and> er \<le> skip \<and>
           (n < tests \<longrightarrow> er = skip \<and> \<not> works (n - 1))"
  using assms
proof (induction skip tests works device errors found rule: scan_devices.induct)
  case (1 skip tests works device errors found)
  show ?case
  proof (cases "works device")
    case w: True
    show ?thesis
    proof (cases "device + 1 \<ge> tests")
      case True
      with w "1.prems" show ?thesis
        by (auto simp add: scan_devices.simps [of skip tests works device])
    next
      case False
      with w "1.prems" have
        "scan_devices skip tests works (device + 1) errors (found @ [device]) = (f, dv, er)"
        by (simp add: scan_devices.simps [of skip tests works device])
      from "1.IH"(1) [OF w False this] False w "1.prems"
      show ?thesis by auto
    qed
  next
    case w: False
    show ?thesis
    proof (cases "errors + 1 \<ge> skip")
      case True
      with w "1.prems" show ?thesis
        by (auto simp add: scan_devices.simps [of skip tests works device])
    next
      case e: False
      show ?thesis
      proof (cases "device + 1 \<ge> tests")
        case True
        with w e "1.prems" show ?thesis
          by (auto simp add: scan_devices.simps [of skip tests works device])
      next
        case False
        with w e "1.prems" have
          "scan_devices skip tests works (device + 1) (errors + 1) found = (f, dv, er)"
          by (simp add: scan_devices.simps [of skip tests works device])
        from "1.IH"(2) [OF w e False this] False w e "1.prems"
        show ?thesis by auto
      qed
    qed
  qed
qed

text \<open>
  Claim C2, as amended. The failure counter of the discovery loop is never reset, so it
  counts all failed probes, consecutive or not. With \<open>kMaxArity > 0\<close>: the devices
  returned are exactly the working ones among the first \<open>probes_made\<close> indices; at most
  \<open>2 * kMaxArity\<close> devices are probed and at most \<open>kMaxArity\<close> probes fail; and when
  probing stops before \<open>2 * kMaxArity\<close> probes, then exactly \<open>kMaxArity\<close> probes have
  failed and the last probe was one of them. In particular with \<open>kMaxArity = 4\<close>, if
  devices 0 and 1 open and devices 2 to 5 fail, discovery returns the sources 0 and 1.
\<close>

theorem discovery_total_failures:
  assumes "0 < k"
  shows "discovered_devices k works = filter works [0..<probes_made k works] \<and>
         0 < probes_made k works \<and> probes_made k works \<le> 2 * k \<and>
         failures_seen k works =
           length (filter (\<lambda>d. \<not> works d) [0..<probes_made k works]) \<and>
         failures_seen k works \<le> k \<and>
         (probes_made k works < 2 * k \<longrightarrow>
            failures_seen k works = k \<and> \<not> works (probes_made k works - 1)) \<and>
         (k = 4 \<and> works 0 \<and> works 1 \<and> \<not> works 2 \<and> \<not> works 3 \<and> \<not> works 4 \<and> \<not> works 5 \<longrightarrow>
            discovered_devices k works = [0, 1])"
proof -
  obtain f dv er where r: "scan_devices k (2 * k) works 0 0 [] = (f, dv, er)"
    by (metis prod_cases3)
  from scan_devices_inv [OF r] assms
  have a: "discovered_devices k works = filter works [0..<probes_made k works] \<and>
         0 < probes_made k works \<and> probes_made k works \<le> 2 * k \<and>
         failures_seen k works =
           length (filter (\<lambda>d. \<not> works d) [0..<probes_made k works]) \<and>
         failures_seen k works \<le> k \<and>
         (probes_made k works < 2 * k \<longrightarrow>
            failures_seen k works = k \<and> \<not> works (probes_made k works - 1))"
    by (simp add: discovered_devices_def probes_made_def failures_seen_def r)
  have b: "k = 4 \<and> works 0 \<and> works 1 \<and> \<not> works 2 \<and> \<not> works 3 \<and> \<not> works 4 \<and> \<not> works 5 \<longrightarrow>
            discovered_devices k works = [0, 1]"
    by (simp add: discovered_devices_def scan_devices.simps eval_nat_numeral)
  from a b show ?thesis by blast
qed

text \<open>
  Witness for C2: four cameras allowed, devices 0 and 1 work. Six devices are probed and
  the four failures end the scan.
\<close>

theorem discovery_total_failures_witness:
  "(0::nat) < 4 \<and>
   discovered_devices 4 (\<lambda>d. d < 2) = [0, 1] \<and> probes_made 4 (\<lambda>d. d < 2) = 6 \<and>
   failures_seen 4 (\<lambda>d. d < 2) = 4"
  using discovery_total_failures [of 4 "\<lambda>d. d < 2"]
  by (simp add: discovered_devices_def probes_made_def failures_seen_def scan_devices.simps)

text \<open>
  Counterexample for C2 as stated (the stop rule counts consecutive failures): with
  \<open>kMaxArity = 4\<close> and exactly the odd devices working, there are never two failures in
  a row and fewer than eight probes, yet the program stops after device 6 and misses the
  working device 7, which the rule with a consecutive counter finds.
\<close>

theorem discovery_consecutive_counterexample:
  "discovered_devices 4 odd = [1, 3, 5] \<and> odd (7::nat) \<and> probes_made 4 odd = 7 \<and>
   discovered_consecutive 4 odd = [1, 3, 5, 7]"
  by (simp add: discovered_devices_def probes_made_def discovered_consecutive_def
      scan_devices.simps scan_consecutive.simps)

section \<open>Properties of assembly and calibration data\<close>

lemma release_provider_absent:
  "p \<notin> set available \<Longrightarrow> release_provider p available = None"
  by (induction available) auto

lemma release_provider_set:
  "release_provider p available = Some available' \<Longrightarrow>
     p \<in> set available \<and> set available \<subseteq> insert p (set available') \<and>
     set available' \<subseteq> insert None (set available)"
  by (induction available arbitrary: available') (auto split: if_splits)

lemma claim_providers_used:
  "claim_providers ps available used = Inr (available', used') \<Longrightarrow> used' = used @ ps"
  by (induction ps arbitrary: available used) (fastforce split: option.splits)+

lemma claim_providers_absent:
  "p \<in> set ps \<Longrightarrow> p \<notin> set available \<Longrightarrow> p \<noteq> None \<Longrightarrow>
     claim_providers ps available used = Inl AssertionFailed"
proof (induction ps arbitrary: available used)
  case Nil
  then show ?case by simp
next
  case (Cons q ps)
  show ?case
  proof (cases "release_provider q available")
    case None
    then show ?thesis by simp
  next
    case (Some available')
    from release_provider_set [OF Some] Cons.prems have "p \<noteq> q" "p \<notin> set available'"
      by auto
    with Cons Some show ?thesis by auto
  qed
qed

lemma claim_providers_rest:
  "claim_providers ps available used = Inr (available', used') \<Longrightarrow>
     set available \<subseteq> set ps \<union> set available'"
proof (induction ps arbitrary: available used)
  case Nil
  then show ?case by simp
next
  case (Cons q ps)
  then obtain a where a: "release_provider q available = Some a"
    and r: "claim_providers ps a (used @ [q]) = Inr (available', used')"
    by (auto split: option.splits)
  from release_provider_set [OF a] Cons.IH [OF r] show ?case by auto
qed

lemma owned_set: "set (owned ps) = {d. Some d \<in> set ps}"
  by (induction ps) (auto simp: owned_def split: option.splits)

lemma owned_Cons: "owned (p # ps) = (case p of None \<Rightarrow> [] | Some d \<Rightarrow> [d]) @ owned ps"
  by (simp add: owned_def)

lemma owned_map_Some: "owned (map Some ds) = ds"
  by (induction ds) (simp_all add: owned_def)

lemma release_provider_owned:
  "release_provider p available = Some available' \<Longrightarrow>
     owned available' = (case p of None \<Rightarrow> owned available | Some d \<Rightarrow> remove1 d (owned available))"
proof (induction available arbitrary: available')
  case Nil
  then show ?case by simp
next
  case (Cons owner owners)
  show ?case
  proof (cases "owner = p")
    case True
    with Cons.prems show ?thesis by (auto simp: owned_Cons split: option.splits)
  next
    case False
    with Cons.prems obtain a where a: "release_provider p owners = Some a"
      and av: "available' = owner # a"
      by auto
    from Cons.IH [OF a] False av show ?thesis
      by (auto simp: owned_Cons split: option.splits)
  qed
qed

lemma claim_providers_owned:
  "claim_providers ps available used = Inr (available', used') \<Longrightarrow>
     owned available' = fold remove1 (owned ps) (owned available)"
proof (induction ps arbitrary: available used)
  case Nil
  then show ?case by (simp add: owned_def)
next
  case (Cons q ps)
  then obtain a where a: "release_provider q available = Some a"
    and r: "claim_providers ps a (used @ [q]) = Inr (available', used')"
    by (auto split: option.splits)
  from release_provider_owned [OF a] Cons.IH [OF r] show ?case
    by (simp add: owned_Cons split: option.splits)
qed

lemma claim_providers_chosen:
  "claim_providers ps available used = Inr (available', used') \<Longrightarrow> Some d \<in> set ps \<Longrightarrow>
     Some d \<in> set available"
proof (induction ps arbitrary: available used)
  case Nil
  then show ?case by simp
next
  case (Cons q ps)
  then obtain a where a: "release_provider q available = Some a"
    and r: "claim_providers ps a (used @ [q]) = Inr (available', used')"
    by (auto split: option.splits)
  show ?case
  proof (cases "q = Some d")
    case True
    with release_provider_set [OF a] show ?thesis by simp
  next
    case False
    with Cons.prems have "Some d \<in> set ps" by simp
    from Cons.IH [OF r this] release_provider_set [OF a] show ?thesis by auto
  qed
qed

lemma fold_remove1_distinct:
  "distinct ys \<Longrightarrow> distinct (fold remove1 xs ys) \<and> set (fold remove1 xs ys) = set ys - set xs"
proof (induction xs arbitrary: ys)
  case Nil
  then show ?case by simp
next
  case (Cons x xs)
  from Cons.prems have "distinct (remove1 x ys)" "set (remove1 x ys) = set ys - {x}"
    by simp_all
  with Cons.IH [of "remove1 x ys"] show ?case by auto
qed

lemma claim_providers_distinct:
  "claim_providers ps available used = Inr (available', used') \<Longrightarrow>
     distinct (owned available) \<Longrightarrow> distinct (owned ps)"
proof (induction ps arbitrary: available used)
  case Nil
  then show ?case by (simp add: owned_def)
next
  case (Cons q ps)
  then obtain a where a: "release_provider q available = Some a"
    and r: "claim_providers ps a (used @ [q]) = Inr (available', used')"
    by (auto split: option.splits)
  show ?case
  proof (cases q)
    case None
    with release_provider_owned [OF a] Cons.prems(2) have "distinct (owned a)" by simp
    from Cons.IH [OF r this] None show ?thesis by (simp add: owned_Cons)
  next
    case (Some d)
    with release_provider_owned [OF a] have oa: "owned a = remove1 d (owned available)" by simp
    with Cons.prems(2) have da: "distinct (owned a)" "d \<notin> set (owned a)" by simp_all
    have "d \<notin> set (owned ps)"
    proof
      assume "d \<in> set (owned ps)"
      then have "Some d \<in> set ps" by (simp add: owned_set)
      from claim_providers_chosen [OF r this] have "d \<in> set (owned a)" by (simp add: owned_set)
      with da(2) show False by simp
    qed
    with Cons.IH [OF r da(1)] Some show ?thesis by (simp add: owned_Cons)
  qed
qed

lemma discovered_devices_distinct: "distinct (discovered_devices k works)"
proof (cases "k = 0")
  case True
  then show ?thesis
    by (simp add: discovered_devices_def scan_devices.simps [of 0 0 works 0 0 "[]"])
next
  case False
  obtain f dv er where s: "scan_devices k (2 * k) works 0 0 [] = (f, dv, er)"
    by (metis prod_cases3)
  from False scan_devices_inv [OF s] obtain n where "f = filter works [0..<n]" by auto
  with s show ?thesis by (simp add: discovered_devices_def)
qed

lemma AvailableVideoProviders_pool:
  "fst (AvailableVideoProviders k works s) = map Some (discovered_devices k works)"
  "available_providers (snd (AvailableVideoProviders k works s)) =
     map Some (discovered_devices k works)"
  by (simp_all add: AvailableVideoProviders_def InitializeEmpty_def Let_def
      TeardownController_def TeardownConverter_def SwapAndDestroy_controller_def
      SwapAndDestroy_converter_def)

lemma Initialize_Inr:
  assumes "Initialize ps s = Inr s'"
  obtains available' where
    "claim_providers ps (available_providers s) [] = Inr (available', ps)"
    "ps \<noteq> []"
    "s' = \<lparr>arity = length ps, available_providers = [],
           controller = Some \<lparr>ctl_arity = length ps, ctl_providers = ps, ctl_calibration = None\<rparr>,
           converter = Some (length ps),
           calibration_data = calibration_data s,
           emitted = emitted s @ [SetupPipeline, StartInvoked False],
           disposed = disposed s @ owned available' @
             (case controller s of None \<Rightarrow> [] | Some c \<Rightarrow> owned (ctl_providers c))\<rparr>"
proof -
  from assms obtain available' used where
    c: "claim_providers ps (available_providers s) [] = Inr (available', used)"
    by (auto simp: Initialize_def split: sum.splits)
  from claim_providers_used [OF c] have u: "used = ps" by simp
  from assms c u have "ps \<noteq> []"
    by (auto simp: Initialize_def SetupController_def split: sum.splits if_splits)
  moreover from assms c u this have "s' = \<lparr>arity = length ps, available_providers = [],
           controller = Some \<lparr>ctl_arity = length ps, ctl_providers = ps, ctl_calibration = None\<rparr>,
           converter = Some (length ps),
           calibration_data = calibration_data s,
           emitted = emitted s @ [SetupPipeline, StartInvoked False],
           disposed = disposed s @ owned available' @
             (case controller s of None \<Rightarrow> [] | Some c \<Rightarrow> owned (ctl_providers c))\<rparr>"
    by (auto simp: Initialize_def SetupController_def SetupConverter_def
        SwapAndDestroy_controller_def SwapAndDestroy_converter_def)
  ultimately show ?thesis using that c u by blast
qed

text \<open>
  Claim C10. When \<^verbatim>\<open>Initialize\<close> returns, the pool of available sources is empty, the
  new controller holds exactly the chosen sources in the order chosen, and the arity is
  their number. Every chosen source was in the pool. The sources disposed by the call are
  the pool with one entry taken out for each chosen source, followed by the sources of
  the controller that was replaced: every source of the pool that was not chosen has been
  disposed. When no source is in the pool twice, no source is chosen twice, the sources
  disposed from the pool are exactly those not chosen, and a chosen source that was
  neither disposed before nor held by the replaced controller is not disposed: it has
  moved from the pool to the new controller. Choosing a source that is not in the pool
  fails the assertion. The pool that \<^verbatim>\<open>AvailableVideoProviders\<close> leaves holds no source
  twice.
\<close>

theorem Initialize_empties_pool:
  "(Initialize ps s = Inr s' \<longrightarrow>
      available_providers s' = [] \<and>
      map_option ctl_providers (controller s') = Some ps \<and>
      arity s' = length ps \<and>
      (\<forall>d. Some d \<in> set ps \<longrightarrow> Some d \<in> set (available_providers s)) \<and>
      (\<forall>d. Some d \<in> set (available_providers s) \<and> Some d \<notin> set ps \<longrightarrow>
           d \<in> set (disposed s')) \<and>
      disposed s' = disposed s @ fold remove1 (owned ps) (owned (available_providers s)) @
        (case controller s of None \<Rightarrow> [] | Some c \<Rightarrow> owned (ctl_providers c)) \<and>
      (distinct (owned (available_providers s)) \<longrightarrow>
         distinct (owned ps) \<and>
         set (fold remove1 (owned ps) (owned (available_providers s))) =
           {d. Some d \<in> set (available_providers s) \<and> Some d \<notin> set ps} \<and>
         (\<forall>d. Some d \<in> set ps \<and> d \<notin> set (disposed s) \<and>
              (\<forall>c. controller s = Some c \<longrightarrow> Some d \<notin> set (ctl_providers c)) \<longrightarrow>
              d \<notin> set (disposed s')))) \<and>
   (Some c \<in> set ps \<and> Some c \<notin> set (available_providers s) \<longrightarrow>
      Initialize ps s = Inl AssertionFailed) \<and>
   distinct (owned (available_providers (snd (AvailableVideoProviders k works s0))))"
proof -
  let ?old = "case controller s of None \<Rightarrow> [] | Some c \<Rightarrow> owned (ctl_providers c)"
  let ?rest = "fold remove1 (owned ps) (owned (available_providers s))"
  have 1: "available_providers s' = [] \<and>
      map_option ctl_providers (controller s') = Some ps \<and>
      arity s' = length ps \<and>
      (\<forall>d. Some d \<in> set ps \<longrightarrow> Some d \<in> set (available_providers s)) \<and>
      (\<forall>d. Some d \<in> set (available_providers s) \<and> Some d \<notin> set ps \<longrightarrow>
           d \<in> set (disposed s')) \<and>
      disposed s' = disposed s @ ?rest @ ?old \<and>
      (distinct (owned (available_providers s)) \<longrightarrow>
         distinct (owned ps) \<and>
         set ?rest = {d. Some d \<in> set (available_providers s) \<and> Some d \<notin> set ps} \<and>
         (\<forall>d. Some d \<in> set ps \<and> d \<notin> set (disposed s) \<and>
              (\<forall>c. controller s = Some c \<longrightarrow> Some d \<notin> set (ctl_providers c)) \<longrightarrow>
              d \<notin> set (disposed s')))"
    if a: "Initialize ps s = Inr s'"
  proof (rule Initialize_Inr [OF a])
    fix available'
    assume c: "claim_providers ps (available_providers s) [] = Inr (available', ps)"
      and s': "s' = \<lparr>arity = length ps, available_providers = [],
           controller = Some \<lparr>ctl_arity = length ps, ctl_providers = ps, ctl_calibration = None\<rparr>,
           converter = Some (length ps),
           calibration_data = calibration_data s,
           emitted = emitted s @ [SetupPipeline, StartInvoked False],
           disposed = disposed s @ owned available' @ ?old\<rparr>"
    from s' have b: "available_providers s' = []"
      "map_option ctl_providers (controller s') = Some ps" "arity s' = length ps"
      "disposed s' = disposed s @ owned available' @ ?old"
      by simp_all
    note o = claim_providers_owned [OF c]
    have ch: "\<forall>d. Some d \<in> set ps \<longrightarrow> Some d \<in> set (available_providers s)"
      using claim_providers_chosen [OF c] by blast
    have nc: "\<forall>d. Some d \<in> set (available_providers s) \<and> Some d \<notin> set ps \<longrightarrow>
           d \<in> set (disposed s')"
      using claim_providers_rest [OF c] b(4) by (auto simp: owned_set)
    have di: "distinct (owned ps) \<and>
         set ?rest = {d. Some d \<in> set (available_providers s) \<and> Some d \<notin> set ps} \<and>
         (\<forall>d. Some d \<in> set ps \<and> d \<notin> set (disposed s) \<and>
              (\<forall>c. controller s = Some c \<longrightarrow> Some d \<notin> set (ctl_providers c)) \<longrightarrow>
              d \<notin> set (disposed s'))"
      if d: "distinct (owned (available_providers s))"
    proof -
      from fold_remove1_distinct [OF d, of "owned ps"]
      have r: "set ?rest = {d. Some d \<in> set (available_providers s) \<and> Some d \<notin> set ps}"
        by (auto simp: owned_set)
      have "d \<notin> set (disposed s')"
        if "Some d \<in> set ps" "d \<notin> set (disposed s)"
          "\<forall>c. controller s = Some c \<longrightarrow> Some d \<notin> set (ctl_providers c)" for d
      proof -
        from that(1) r have "d \<notin> set ?rest" by simp
        moreover from that(3) have "d \<notin> set ?old"
          by (cases "controller s") (simp_all add: owned_set)
        ultimately show ?thesis using that(2) b(4) o by simp
      qed
      with claim_providers_distinct [OF c d] r show ?thesis by blast
    qed
    from b(1-3) ch nc b(4) o di show ?thesis by simp
  qed
  have 2: "Initialize ps s = Inl AssertionFailed"
    if "Some c \<in> set ps \<and> Some c \<notin> set (available_providers s)"
  proof -
    from that have "claim_providers ps (available_providers s) [] = Inl AssertionFailed"
      by (auto intro: claim_providers_absent)
    then show ?thesis by (simp add: Initialize_def)
  qed
  have 3: "distinct (owned (available_providers (snd (AvailableVideoProviders k works s0))))"
    by (simp add: AvailableVideoProviders_pool owned_map_Some discovered_devices_distinct)
  from 1 2 3 show ?thesis by blast
qed

text \<open>
  Witness for C10: from a pool of three sources, choosing sources 2 and 0 disposes source
  1 and neither 2 nor 0; with a controller in place that holds source 5, choosing source
  1 from the pool of 0 and 1 disposes 0 and 5; choosing source 3, which is not in the
  pool, fails the assertion.
\<close>

theorem Initialize_empties_pool_witness:
  "Initialize [Some 2, Some 0]
     (Application_new\<lparr>available_providers := [Some 0, Some 1, Some 2]\<rparr>)
   = Inr \<lparr>arity = 2, available_providers = [],
          controller = Some \<lparr>ctl_arity = 2, ctl_providers = [Some 2, Some 0],
                             ctl_calibration = None\<rparr>,
          converter = Some 2, calibration_data = None,
          emitted = [SetupPipeline, StartInvoked False], disposed = [1]\<rparr> \<and>
   distinct (owned [Some 0, Some 1, Some (2::nat)]) \<and>
   (2::nat) \<notin> set [1] \<and> (0::nat) \<notin> set [1] \<and>
   Initialize [Some 1]
     (Application_new\<lparr>available_providers := [Some 0, Some 1],
        controller := Some \<lparr>ctl_arity = 1, ctl_providers = [Some 5], ctl_calibration = None\<rparr>\<rparr>)
   = Inr \<lparr>arity = 1, available_providers = [],
          controller = Some \<lparr>ctl_arity = 1, ctl_providers = [Some 1],
                             ctl_calibration = None\<rparr>,
          converter = Some 1, calibration_data = None,
          emitted = [SetupPipeline, StartInvoked False], disposed = [0, 5]\<rparr> \<and>
   Initialize [Some 0, Some 3]
     (Application_new\<lparr>available_providers := [Some 0, Some 1, Some 2]\<rparr>)
   = Inl AssertionFailed"
  using Initialize_empties_pool
    [where ps = "[Some 2, Some 0]"
       and s = "Application_new\<lparr>available_providers := [Some 0, Some 1, Some 2]\<rparr>"
       and s' = "\<lparr>arity = 2, available_providers = [],
          controller = Some \<lparr>ctl_arity = 2, ctl_providers = [Some 2, Some 0],
                             ctl_calibration = None\<rparr>,
          converter = Some 2, calibration_data = None,
          emitted = [SetupPipeline, StartInvoked False], disposed = [1]\<rparr>"
       and c = 3 and k = 1 and works = "\<lambda>d. True" and ?s0.0 = Application_new]
    Initialize_empties_pool
    [where ps = "[Some 0, Some 3]" and c = 3
       and s = "Application_new\<lparr>available_providers := [Some 0, Some 1, Some 2]\<rparr>"
       and k = 1 and works = "\<lambda>d. True" and ?s0.0 = Application_new]
  by (simp add: Initialize_def Application_new_def SetupController_def SetupConverter_def
      SwapAndDestroy_controller_def SwapAndDestroy_converter_def owned_def)

text \<open>
  Claim C9. \<^verbatim>\<open>SetCalibrationData\<close> fails its assertion when there is no controller or when
  the controller's arity differs from the data's; otherwise the application stores the
  data, the signal \<^verbatim>\<open>CalibrationDataReady\<close> carries it, and the controller receives its
  copy. After assembling a pipeline from \<open>ps\<close> the arity is \<open>length ps\<close>, so data of any
  other arity fails the assertion.
\<close>

theorem SetCalibrationData_requires_arity:
  "(controller s = None \<longrightarrow> SetCalibrationData d s = Inl AssertionFailed) \<and>
   (controller s = Some c \<and> ctl_arity c \<noteq> cd_arity d \<longrightarrow>
      SetCalibrationData d s = Inl AssertionFailed) \<and>
   (controller s = Some c \<and> ctl_arity c = cd_arity d \<longrightarrow>
      SetCalibrationData d s =
        Inr (s\<lparr>calibration_data := Some d,
               controller := Some (c\<lparr>ctl_calibration := Some d\<rparr>),
               emitted := emitted s @ [CalibrationDataReady d]\<rparr>)) \<and>
   (Initialize ps s0 = Inr s1 \<longrightarrow>
      arity s1 = length ps \<and> map_option ctl_arity (controller s1) = Some (length ps) \<and>
      (cd_arity d \<noteq> length ps \<longrightarrow> SetCalibrationData d s1 = Inl AssertionFailed))"
proof (intro conjI impI)
  assume a: "Initialize ps s0 = Inr s1"
  from a show "arity s1 = length ps" by (rule Initialize_Inr) simp
  from a show "map_option ctl_arity (controller s1) = Some (length ps)"
    by (rule Initialize_Inr) simp
  assume "cd_arity d \<noteq> length ps"
  with a show "SetCalibrationData d s1 = Inl AssertionFailed"
    by - (erule Initialize_Inr, simp add: SetCalibrationData_def)
qed (simp_all add: SetCalibrationData_def)

text \<open>
  Witness for C9: a pipeline assembled from two sources has arity 2; data of arity 3 fails
  the assertion, data of arity 2 is stored and broadcast.
\<close>

theorem SetCalibrationData_requires_arity_witness:
  "Initialize [Some 0, Some 1] (Application_new\<lparr>available_providers := [Some 0, Some 1]\<rparr>)
   = Inr \<lparr>arity = 2, available_providers = [],
          controller = Some \<lparr>ctl_arity = 2, ctl_providers = [Some 0, Some 1],
                             ctl_calibration = None\<rparr>,
          converter = Some 2, calibration_data = None,
          emitted = [SetupPipeline, StartInvoked False], disposed = []\<rparr> \<and>
   SetCalibrationData \<lparr>cd_arity = 3, cd_payload = 0\<rparr>
     \<lparr>arity = 2, available_providers = [],
          controller = Some \<lparr>ctl_arity = 2, ctl_providers = [Some 0, Some 1],
                             ctl_calibration = None\<rparr>,
          converter = Some 2, calibration_data = None,
          emitted = [SetupPipeline, StartInvoked False], disposed = []\<rparr>
   = Inl AssertionFailed \<and>
   SetCalibrationData \<lparr>cd_arity = 2, cd_payload = 0\<rparr>
     \<lparr>arity = 2, available_providers = [],
          controller = Some \<lparr>ctl_arity = 2, ctl_providers = [Some 0, Some 1],
                             ctl_calibration = None\<rparr>,
          converter = Some 2, calibration_data = None,
          emitted = [SetupPipeline, StartInvoked False], disposed = []\<rparr>
   = Inr \<lparr>arity = 2, available_providers = [],
          controller = Some \<lparr>ctl_arity = 2, ctl_providers = [Some 0, Some 1],
                             ctl_calibration = Some \<lparr>cd_arity = 2, cd_payload = 0\<rparr>\<rparr>,
          converter = Some 2,
          calibration_data = Some \<lparr>cd_arity = 2, cd_payload = 0\<rparr>,
          emitted = [SetupPipeline, StartInvoked False,
                     CalibrationDataReady \<lparr>cd_arity = 2, cd_payload = 0\<rparr>],
          disposed = []\<rparr>"
  using SetCalibrationData_requires_arity
    [where s = "\<lparr>arity = 2, available_providers = [],
          controller = Some \<lparr>ctl_arity = 2, ctl_providers = [Some 0, Some 1],
                             ctl_calibration = None\<rparr>,
          converter = Some 2, calibration_data = None,
          emitted = [SetupPipeline, StartInvoked False], disposed = []\<rparr>"
       and c = "\<lparr>ctl_arity = 2, ctl_providers = [Some 0, Some 1], ctl_calibration = None\<rparr>"
       and d = "\<lparr>cd_arity = 3, cd_payload = 0\<rparr>"
       and ps = "[Some 0, Some 1]"
       and ?s0.0 = "Application_new\<lparr>available_providers := [Some 0, Some 1]\<rparr>"
       and ?s1.0 = "\<lparr>arity = 2, available_providers = [],
          controller = Some \<lparr>ctl_arity = 2, ctl_providers = [Some 0, Some 1],
                             ctl_calibration = None\<rparr>,
          converter = Some 2, calibration_data = None,
          emitted = [SetupPipeline, StartInvoked False], disposed = []\<rparr>"]
  by (simp add: Initialize_def Application_new_def SetupController_def SetupConverter_def
      SwapAndDestroy_controller_def SwapAndDestroy_converter_def owned_def
      SetCalibrationData_def)

text \<open>
  Claim C4, as amended. No topology change touches the application's calibration data:
  \<^verbatim>\<open>InitializeEmpty\<close>, discovery and \<^verbatim>\<open>Initialize\<close> leave \<open>calibration_data\<close> as it was;
  only the controller created by \<^verbatim>\<open>Initialize\<close> starts without calibration data.
\<close>

theorem topology_change_keeps_calibration:
  "calibration_data (InitializeEmpty s) = calibration_data s \<and>
   calibration_data (snd (AvailableVideoProviders k works s)) = calibration_data s \<and>
   (Initialize ps s = Inr s' \<longrightarrow>
      calibration_data s' = calibration_data s \<and>
      map_option ctl_calibration (controller s') = Some None)"
proof (intro conjI impI)
  assume a: "Initialize ps s = Inr s'"
  from a show "calibration_data s' = calibration_data s" by (rule Initialize_Inr) simp
  from a show "map_option ctl_calibration (controller s') = Some None"
    by (rule Initialize_Inr) simp
qed (simp_all add: InitializeEmpty_def AvailableVideoProviders_def TeardownConverter_def
      TeardownController_def SwapAndDestroy_controller_def SwapAndDestroy_converter_def Let_def)

text \<open>
  Witness for C4: assembling a pipeline of one camera in a state that holds calibration
  data of arity 2 keeps that data.
\<close>

theorem topology_change_keeps_calibration_witness:
  "Initialize [Some 0]
     \<lparr>arity = 0, available_providers = [Some 0], controller = None, converter = None,
      calibration_data = Some \<lparr>cd_arity = 2, cd_payload = 7\<rparr>, emitted = [], disposed = []\<rparr> =
   Inr \<lparr>arity = 1, available_providers = [],
        controller = Some \<lparr>ctl_arity = 1, ctl_providers = [Some 0], ctl_calibration = None\<rparr>,
        converter = Some 1,
        calibration_data = Some \<lparr>cd_arity = 2, cd_payload = 7\<rparr>,
        emitted = [SetupPipeline, StartInvoked False], disposed = []\<rparr> \<and>
   calibration_data (InitializeEmpty
     \<lparr>arity = 0, available_providers = [Some 0], controller = None, converter = None,
      calibration_data = Some \<lparr>cd_arity = 2, cd_payload = 7\<rparr>, emitted = [], disposed = []\<rparr>) =
   Some \<lparr>cd_arity = 2, cd_payload = 7\<rparr>"
  using topology_change_keeps_calibration
    [where ps = "[Some 0]"
       and s = "\<lparr>arity = 0, available_providers = [Some 0], controller = None, converter = None,
      calibration_data = Some \<lparr>cd_arity = 2, cd_payload = 7\<rparr>, emitted = [], disposed = []\<rparr>"
       and s' = "\<lparr>arity = 1, available_providers = [],
        controller = Some \<lparr>ctl_arity = 1, ctl_providers = [Some 0], ctl_calibration = None\<rparr>,
        converter = Some 1,
        calibration_data = Some \<lparr>cd_arity = 2, cd_payload = 7\<rparr>,
        emitted = [SetupPipeline, StartInvoked False], disposed = []\<rparr>"]
  by (simp add: Initialize_def SetupController_def SetupConverter_def
      SwapAndDestroy_controller_def SwapAndDestroy_converter_def owned_def)

text \<open>
  Counterexample for C4 as stated (a topology change discards the calibration data):
  after discovery, assembly of two cameras and calibration data of arity 2, the teardown by
  \<^verbatim>\<open>InitializeEmpty\<close> leaves no controller but still the calibration data; and after a new
  discovery and the assembly of a single camera the application has arity 1 and still
  holds the data of arity 2.
\<close>

theorem calibration_survives_teardown_counterexample:
  "calibration_data
     (InitializeEmpty
        (projr (SetCalibrationData \<lparr>cd_arity = 2, cd_payload = 7\<rparr>
           (projr (Initialize [Some 0, Some 1]
              (snd (AvailableVideoProviders 4 ((>) 2) Application_new)))))))
     = Some \<lparr>cd_arity = 2, cd_payload = 7\<rparr> \<and>
   controller
     (InitializeEmpty
        (projr (SetCalibrationData \<lparr>cd_arity = 2, cd_payload = 7\<rparr>
           (projr (Initialize [Some 0, Some 1]
              (snd (AvailableVideoProviders 4 ((>) 2) Application_new)))))))
     = None \<and>
   Initialize [Some 0]
     (snd (AvailableVideoProviders 4 ((>) 1)
        (projr (SetCalibrationData \<lparr>cd_arity = 2, cd_payload = 7\<rparr>
           (projr (Initialize [Some 0, Some 1]
              (snd (AvailableVideoProviders 4 ((>) 2) Application_new)))))))) =
   Inr \<lparr>arity = 1, available_providers = [],
        controller = Some \<lparr>ctl_arity = 1, ctl_providers = [Some 0], ctl_calibration = None\<rparr>,
        converter = Some 1,
        calibration_data = Some \<lparr>cd_arity = 2, cd_payload = 7\<rparr>,
        emitted = [SetupPipeline, SetupPipeline, StartInvoked False,
                   CalibrationDataReady \<lparr>cd_arity = 2, cd_payload = 7\<rparr>,
                   SetupPipeline, SetupPipeline, StartInvoked False],
        disposed = [0, 1]\<rparr>"
  by (simp add: AvailableVideoProviders_def InitializeEmpty_def TeardownConverter_def
      TeardownController_def discovered_devices_def scan_devices.simps
      Initialize_def Application_new_def SetupController_def SetupConverter_def
      SwapAndDestroy_controller_def SwapAndDestroy_converter_def owned_def
      SetCalibrationData_def)

section \<open>Properties of floating-point rounding\<close>

lemma rne_of_int: "rne (real_of_int n) = n"
  by (simp add: rne_def)

lemma rne_error: "\<bar>real_of_int (rne t) - t\<bar> \<le> 1/2"
  unfolding rne_def Let_def by (auto; linarith)

lemma rne_nonneg: "0 \<le> t \<Longrightarrow> 0 \<le> rne t"
  unfolding rne_def Let_def by (auto; linarith)

lemma rne_nonpos: "t \<le> 0 \<Longrightarrow> rne t \<le> 0"
proof -
  assume t: "t \<le> 0"
  show ?thesis
  proof (cases "t = 0")
    case True
    then show ?thesis by (simp add: rne_def)
  next
    case False
    with t have "t < 0" by simp
    then have f: "\<lfloor>t\<rfloor> \<le> -1" by (simp add: floor_le_iff)
    show ?thesis
    proof (cases "\<lfloor>t\<rfloor> = -1")
      case True
      then have "even \<lfloor>t\<rfloor> = False" by simp
      with True show ?thesis
        unfolding rne_def Let_def using \<open>t < 0\<close> by auto
    next
      case False
      with f have "\<lfloor>t\<rfloor> \<le> -2" by linarith
      then show ?thesis unfolding rne_def Let_def by auto
    qed
  qed
qed

lemma ulp_pos: "0 < ulp p v"
  by (simp add: ulp_def)

lemma expo_bounds:
  assumes "v \<noteq> 0"
  shows "2 powr real_of_int (expo v) \<le> \<bar>v\<bar>" "\<bar>v\<bar> < 2 powr (real_of_int (expo v) + 1)"
proof -
  from assms have p: "0 < \<bar>v\<bar>" by simp
  have "\<lfloor>log 2 \<bar>v\<bar>\<rfloor> = expo v" by (simp add: expo_def)
  then have "2 powr real_of_int (expo v) \<le> \<bar>v\<bar> \<and> \<bar>v\<bar> < 2 powr (real_of_int (expo v) + 1)"
    using p by (subst (asm) floor_log_eq_powr_iff) simp_all
  then show "2 powr real_of_int (expo v) \<le> \<bar>v\<bar>" "\<bar>v\<bar> < 2 powr (real_of_int (expo v) + 1)"
    by simp_all
qed

lemma expo_eq:
  assumes "2 powr real_of_int e \<le> \<bar>v\<bar>" "\<bar>v\<bar> < 2 powr (real_of_int e + 1)"
  shows "expo v = e"
proof -
  have "0 < 2 powr real_of_int e" by simp
  with assms have p: "0 < \<bar>v\<bar>" by linarith
  show ?thesis unfolding expo_def
    using p assms by (subst floor_log_eq_powr_iff) simp_all
qed

lemma expo_le:
  assumes "v \<noteq> 0" "\<bar>v\<bar> < 2 powr real_of_int k"
  shows "expo v < k"
proof -
  from expo_bounds(1) [OF assms(1)] assms(2)
  have "2 powr real_of_int (expo v) < 2 powr real_of_int k" by linarith
  then show ?thesis by simp
qed

lemma round_binary_dyadic:
  assumes "\<bar>n\<bar> < 2 ^ p"
  shows "round_binary p (real_of_int n / 2 ^ k) = real_of_int n / 2 ^ k"
proof (cases "n = 0")
  case True
  then show ?thesis by (simp add: round_binary_def)
next
  case False
  let ?v = "real_of_int n / 2 ^ k"
  from False have v0: "?v \<noteq> 0" by simp
  define e where "e = expo ?v"
  define j where "j = int p - 1 - e - int k"
  have av: "\<bar>?v\<bar> = real_of_int \<bar>n\<bar> / 2 ^ k" by (simp add: abs_divide)
  from expo_bounds(1) [OF v0] have "2 powr real_of_int e \<le> real_of_int \<bar>n\<bar> / 2 ^ k"
    unfolding e_def av .
  then have "2 powr real_of_int e * 2 ^ k \<le> real_of_int \<bar>n\<bar>"
    by (simp add: pos_le_divide_eq)
  moreover have "2 powr real_of_int e * 2 ^ k = 2 powr (real_of_int (e + int k))"
    by (simp add: powr_add powr_realpow)
  moreover from assms have "real_of_int \<bar>n\<bar> < 2 ^ p"
    by (metis of_int_less_iff of_int_numeral of_int_power)
  moreover have "(2::real) ^ p = 2 powr real_of_int (int p)"
    by (simp add: powr_realpow)
  ultimately have "2 powr real_of_int (e + int k) < 2 powr real_of_int (int p)"
    by linarith
  then have "e + int k < int p" by simp
  then have j0: "0 \<le> j" by (simp add: j_def)
  have u: "ulp p ?v = 2 powr real_of_int (e - int p + 1)"
    by (simp add: ulp_def e_def)
  have "2 ^ nat j * 2 powr real_of_int (e - int p + 1) = 2 powr (real (nat j) + real_of_int (e - int p + 1))"
    by (simp add: powr_add powr_realpow)
  also have "real (nat j) + real_of_int (e - int p + 1) = - real k"
    using j0 by (simp add: j_def)
  also have "2 powr (- real k) = 1 / 2 ^ k"
    by (simp add: powr_minus powr_realpow divide_inverse)
  finally have pw: "2 ^ nat j * ulp p ?v = 1 / 2 ^ k" by (simp add: u)
  have "?v = real_of_int n * (2 ^ nat j * ulp p ?v)" by (simp add: pw)
  then have "?v / ulp p ?v = real_of_int (n * 2 ^ nat j)"
    using ulp_pos [of p ?v] by (simp add: field_simps)
  then have "rne (?v / ulp p ?v) = n * 2 ^ nat j"
    by (simp only: rne_of_int)
  then have "round_binary p ?v = real_of_int (n * 2 ^ nat j) * ulp p ?v"
    using v0 by (simp add: round_binary_def)
  also have "\<dots> = real_of_int n * (2 ^ nat j * ulp p ?v)" by simp
  also have "\<dots> = ?v" by (simp add: pw)
  finally show ?thesis .
qed

lemma round_binary_int:
  assumes "\<bar>n\<bar> < 2 ^ p"
  shows "round_binary p (real_of_int n) = real_of_int n"
  using round_binary_dyadic [OF assms, of 0] by simp

lemma round_binary_error:
  assumes "24 \<le> p" "\<bar>v\<bar> \<le> 2 ^ 22"
  shows "\<bar>round_binary p v - v\<bar> \<le> 1/4"
proof (cases "v = 0")
  case True
  then show ?thesis by (simp add: round_binary_def)
next
  case False
  let ?u = "ulp p v"
  from expo_bounds(1) [OF False] assms(2) have "2 powr real_of_int (expo v) \<le> 2 ^ 22"
    by linarith
  moreover have "(2::real) ^ 22 = 2 powr real_of_int 22" by (simp add: powr_realpow [symmetric])
  ultimately have "2 powr real_of_int (expo v) \<le> 2 powr real_of_int 22" by simp
  then have "expo v \<le> 22" by (simp only: powr_le_cancel_iff)
  with assms(1) have "expo v - int p + 1 \<le> -1" by simp
  then have "2 powr real_of_int (expo v - int p + 1) \<le> 2 powr real_of_int (-1)"
    by (simp only: powr_le_cancel_iff) 
  then have u: "?u \<le> 1/2" by (simp add: ulp_def powr_minus)
  have "round_binary p v - v = (real_of_int (rne (v / ?u)) - v / ?u) * ?u"
    using False ulp_pos [of p v] by (simp add: round_binary_def field_simps)
  then have "\<bar>round_binary p v - v\<bar> = \<bar>real_of_int (rne (v / ?u)) - v / ?u\<bar> * ?u"
    using ulp_pos [of p v] by (simp add: abs_mult)
  also have "\<dots> \<le> 1/2 * ?u"
    using rne_error [of "v / ?u"] ulp_pos [of p v] by (intro mult_right_mono) simp_all
  also have "\<dots> \<le> 1/4" using u by simp
  finally show ?thesis .
qed

lemma round_binary_nonneg: "0 \<le> v \<Longrightarrow> 0 \<le> round_binary p v"
  using ulp_pos [of p v] rne_nonneg [of "v / ulp p v"]
  by (simp add: round_binary_def)

lemma round_binary_nonpos: "v \<le> 0 \<Longrightarrow> round_binary p v \<le> 0"
  using ulp_pos [of p v] rne_nonpos [of "v / ulp p v"]
  by (simp add: round_binary_def mult_le_0_iff divide_le_0_iff)

lemma float_rounding_binary:
  assumes "24 \<le> p"
  shows "float_rounding (round_binary p)"
proof -
  have "(2::int) ^ 22 < 2 ^ 24" by simp
  also from assms have "(2::int) ^ 24 \<le> 2 ^ p" by (intro power_increasing) simp_all
  finally have "\<bar>n\<bar> < 2 ^ p" if "\<bar>n\<bar> \<le> 2 ^ 22" for n :: int using that by linarith
  then show ?thesis
    unfolding float_rounding_def
    using round_binary_nonneg round_binary_nonpos round_binary_int round_binary_error [OF assms]
    by blast
qed

text \<open>
  Values used in the examples: small integers and halves are exact in single precision;
  \<open>12792627 / 2097152\<close>, \<open>9227469 / 8388608\<close> and \<open>15938355 / 8388608\<close> are the
  single-precision numbers nearest to 6.1, 1.1 and 1.9, and the four inexact results are
  their rounded differences \<open>6.1 - 1.1\<close>, \<open>8 - 1.9\<close>, \<open>8 - 1.1\<close> and \<open>4 - 1.1\<close>.
\<close>

lemma round_binary_numeral:
  "numeral k < (2::int) ^ p \<Longrightarrow> round_binary p (numeral k) = numeral k"
  "numeral k < (2::int) ^ p \<Longrightarrow> round_binary p (- numeral k) = - numeral k"
  "numeral k < (2::int) ^ p \<Longrightarrow> round_binary p (numeral k / 2) = numeral k / 2"
  "round_binary p 0 = 0"
  "0 < p \<Longrightarrow> round_binary p 1 = 1"
proof -
  show "round_binary p (numeral k) = numeral k" if "numeral k < (2::int) ^ p"
    using round_binary_int [of "numeral k" p] that by simp
  show "round_binary p (- numeral k) = - numeral k" if "numeral k < (2::int) ^ p"
    using round_binary_int [of "- numeral k" p] that by simp
  show "round_binary p (numeral k / 2) = numeral k / 2" if "numeral k < (2::int) ^ p"
    using round_binary_dyadic [of "numeral k" p 1] that by simp
  show "round_binary p 0 = 0" by (simp add: round_binary_def)
  show "round_binary p 1 = 1" if "0 < p"
    using round_binary_int [of 1 p] that by simp
qed

lemma round_binary_inexact:
  "round_binary 24 (41943039 / 8388608) = 5"
  "round_binary 24 (51170509 / 8388608) = 12792627 / 2097152"
  "round_binary 24 (57881395 / 8388608) = 14470349 / 2097152"
  "round_binary 24 (24326963 / 8388608) = 6081741 / 2097152"
proof -
  have e: "expo (41943039 / 8388608) = 2" "expo (51170509 / 8388608) = 2"
    "expo (57881395 / 8388608) = 2" "expo (24326963 / 8388608) = 1"
    by (rule expo_eq; simp)+
  show "round_binary 24 (41943039 / 8388608) = 5"
    "round_binary 24 (51170509 / 8388608) = 12792627 / 2097152"
    "round_binary 24 (57881395 / 8388608) = 14470349 / 2097152"
    "round_binary 24 (24326963 / 8388608) = 6081741 / 2097152"
    by (simp_all add: round_binary_def ulp_def e powr_minus rne_def Let_def)
qed

lemma round_binary_exact:
  "round_binary 24 (7549747 / 8388608) = 7549747 / 8388608"
  "round_binary 24 (9227469 / 4194304) = 9227469 / 4194304"
  using round_binary_dyadic [of 7549747 24 23] round_binary_dyadic [of 9227469 24 22]
  by simp_all

section \<open>Properties of InitTrackerData\<close>

lemma to_int_nonneg: "0 \<le> v \<Longrightarrow> to_int v = \<lfloor>v\<rfloor>"
  by (simp add: to_int_def)

lemma crop_dims:
  "crop m r = Some c \<Longrightarrow> rows c = rect_height r \<and> cols c = rect_width r"
  by (auto simp: crop_def split: if_splits)

lemma crop_inside:
  "crop m r = Some c \<Longrightarrow>
     0 \<le> rect_x r \<and> 0 \<le> rect_width r \<and> rect_x r + rect_width r \<le> cols m \<and>
     0 \<le> rect_y r \<and> 0 \<le> rect_height r \<and> rect_y r + rect_height r \<le> rows m"
  by (auto simp: crop_def split: if_splits)

lemma crop_wf:
  assumes "crop m r = Some c" "wf_Mat m"
  shows "wf_Mat c"
proof -
  from assms(1) have c: "c = \<lparr>rows = rect_height r, cols = rect_width r,
                 cells = map (\<lambda>row. take (nat (rect_width r)) (drop (nat (rect_x r)) row))
                           (take (nat (rect_height r)) (drop (nat (rect_y r)) (cells m)))\<rparr>"
    and i: "0 \<le> rect_x r" "0 \<le> rect_width r" "rect_x r + rect_width r \<le> cols m"
     "0 \<le> rect_y r" "0 \<le> rect_height r" "rect_y r + rect_height r \<le> rows m"
    by (auto simp: crop_def split: if_splits)
  have "\<And>row. row \<in> set (take (nat (rect_height r)) (drop (nat (rect_y r)) (cells m)))
      \<Longrightarrow> length row = nat (cols m)"
    using assms(2) by (auto simp: wf_Mat_def list_all_iff dest!: in_set_takeD in_set_dropD)
  with i assms(2) show ?thesis
    by (auto simp: c wf_Mat_def list_all_iff)
qed

lemma crop_cell:
  assumes "crop m r = Some c" "wf_Mat m"
    and "0 \<le> i" "i < rect_width r" "0 \<le> j" "j < rect_height r"
  shows "cell c (i, j) = cell m (rect_x r + i, rect_y r + j)"
proof -
  from assms(1) have c: "cells c = map (\<lambda>row. take (nat (rect_width r)) (drop (nat (rect_x r)) row))
                           (take (nat (rect_height r)) (drop (nat (rect_y r)) (cells m)))"
    and b: "0 \<le> rect_x r" "0 \<le> rect_width r" "rect_x r + rect_width r \<le> cols m"
     "0 \<le> rect_y r" "0 \<le> rect_height r" "rect_y r + rect_height r \<le> rows m"
    by (auto simp: crop_def split: if_splits)
  from assms b have l: "nat (rect_y r) + nat j < length (cells m)"
    by (simp add: wf_Mat_def)
  then have "length (cells m ! (nat (rect_y r) + nat j)) = nat (cols m)"
    using assms(2) by (simp add: wf_Mat_def list_all_length)
  with assms b l have "cell c (i, j) = cells m ! (nat (rect_y r) + nat j) ! (nat (rect_x r) + nat i)"
    by (simp add: cell_def c)
  moreover have "nat (rect_y r) + nat j = nat (rect_y r + j)" "nat (rect_x r) + nat i = nat (rect_x r + i)"
    using assms b by linarith+
  ultimately show ?thesis by (simp add: cell_def)
qed

lemma float_rounding_facts:
  assumes "float_rounding rnd"
  shows "0 \<le> v \<Longrightarrow> 0 \<le> rnd v" "v \<le> 0 \<Longrightarrow> rnd v \<le> 0"
    "\<bar>n\<bar> \<le> 2 ^ 22 \<Longrightarrow> rnd (real_of_int n) = real_of_int n"
    "\<bar>v\<bar> \<le> 2 ^ 22 \<Longrightarrow> \<bar>rnd v - v\<bar> \<le> 1/4"
  using assms unfolding float_rounding_def by blast+

text \<open>One coordinate of the bounds check and of the cropped rectangle.\<close>

lemma init_axis:
  assumes fr: "float_rounding rnd"
    and c: "0 \<le> c" "c \<le> 2 ^ 21"
    and r: "0 \<le> r" "r \<le> x" "x < rnd (rnd (real_of_int c) - r)"
  shows "to_int (rnd (x - r)) = \<lfloor>rnd (x - r)\<rfloor>" "to_int (rnd (2 * r)) = \<lfloor>rnd (2 * r)\<rfloor>"
    "0 \<le> \<lfloor>rnd (x - r)\<rfloor>" "0 \<le> \<lfloor>rnd (2 * r)\<rfloor>"
    "\<lfloor>rnd (x - r)\<rfloor> + \<lfloor>rnd (2 * r)\<rfloor> \<le> c"
    "x - r - 5/4 < real_of_int \<lfloor>rnd (x - r)\<rfloor>" "real_of_int \<lfloor>rnd (x - r)\<rfloor> \<le> x - r + 1/4"
    "2 * r - 5/4 < real_of_int \<lfloor>rnd (2 * r)\<rfloor>" "real_of_int \<lfloor>rnd (2 * r)\<rfloor> \<le> 2 * r + 1/4"
    "\<bar>x - r\<bar> \<le> 2 ^ 22" "\<bar>2 * r\<bar> \<le> 2 ^ 22"
proof -
  from c have cc: "\<bar>c\<bar> \<le> 2 ^ 22" by simp
  have rc: "rnd (real_of_int c) = real_of_int c"
    using float_rounding_facts(3) [OF fr cc] .
  have rle: "r \<le> real_of_int c"
  proof (rule ccontr)
    assume "\<not> r \<le> real_of_int c"
    then have "real_of_int c - r \<le> 0" by simp
    from float_rounding_facts(2) [OF fr this] r rc show False by simp
  qed
  have creal: "real_of_int c \<le> 2 ^ 21" using c(2) by (metis of_int_le_iff of_int_numeral of_int_power)
  have "\<bar>real_of_int c - r\<bar> \<le> 2 ^ 22" using rle r(1) c(1) creal by simp
  from float_rounding_facts(4) [OF fr this] r(3) [unfolded rc]
  have xb: "x < real_of_int c - r + 1/4" by linarith
  show b1: "\<bar>x - r\<bar> \<le> 2 ^ 22" using r xb creal by simp
  show b2: "\<bar>2 * r\<bar> \<le> 2 ^ 22" using r rle creal by simp
  have p1: "0 \<le> rnd (x - r)" using float_rounding_facts(1) [OF fr, of "x - r"] r by simp
  have p2: "0 \<le> rnd (2 * r)" using float_rounding_facts(1) [OF fr, of "2 * r"] r by simp
  from p1 show "to_int (rnd (x - r)) = \<lfloor>rnd (x - r)\<rfloor>" by (simp add: to_int_def)
  from p2 show "to_int (rnd (2 * r)) = \<lfloor>rnd (2 * r)\<rfloor>" by (simp add: to_int_def)
  from p1 show "0 \<le> \<lfloor>rnd (x - r)\<rfloor>" by simp
  from p2 show "0 \<le> \<lfloor>rnd (2 * r)\<rfloor>" by simp
  note e1 = float_rounding_facts(4) [OF fr b1] and e2 = float_rounding_facts(4) [OF fr b2]
  have "real_of_int (\<lfloor>rnd (x - r)\<rfloor> + \<lfloor>rnd (2 * r)\<rfloor>) \<le> rnd (x - r) + rnd (2 * r)"
    by simp linarith
  also have "\<dots> \<le> x + r + 1/2" using e1 e2 by linarith
  also have "\<dots> < real_of_int c + 3/4" using xb by linarith
  finally have "real_of_int (\<lfloor>rnd (x - r)\<rfloor> + \<lfloor>rnd (2 * r)\<rfloor>) < real_of_int c + 1" by linarith
  then have "real_of_int (\<lfloor>rnd (x - r)\<rfloor> + \<lfloor>rnd (2 * r)\<rfloor>) < real_of_int (c + 1)" by simp
  then have "\<lfloor>rnd (x - r)\<rfloor> + \<lfloor>rnd (2 * r)\<rfloor> < c + 1"
    by (simp only: of_int_less_iff)
  then show "\<lfloor>rnd (x - r)\<rfloor> + \<lfloor>rnd (2 * r)\<rfloor> \<le> c" by linarith
  show "x - r - 5/4 < real_of_int \<lfloor>rnd (x - r)\<rfloor>" using e1 by linarith
  show "real_of_int \<lfloor>rnd (x - r)\<rfloor> \<le> x - r + 1/4" using e1 by linarith
  show "2 * r - 5/4 < real_of_int \<lfloor>rnd (2 * r)\<rfloor>" using e2 by linarith
  show "real_of_int \<lfloor>rnd (2 * r)\<rfloor> \<le> 2 * r + 1/4" using e2 by linarith
qed

lemma patch_rect_floor:
  assumes "float_rounding rnd" "wf_Mat data" "cols data \<le> 2 ^ 21" "rows data \<le> 2 ^ 21"
    and "init_guard rnd data mark" "0 \<le> radius mark"
  shows "patch_rect rnd mark =
     \<lparr>rect_x = \<lfloor>rnd (fst (center mark) - radius mark)\<rfloor>,
      rect_y = \<lfloor>rnd (snd (center mark) - radius mark)\<rfloor>,
      rect_width = \<lfloor>rnd (2 * radius mark)\<rfloor>, rect_height = \<lfloor>rnd (2 * radius mark)\<rfloor>\<rparr>"
proof -
  from assms(2) have nn: "0 \<le> cols data" "0 \<le> rows data" by (simp_all add: wf_Mat_def)
  from assms(5) have g: "radius mark \<le> fst (center mark)"
    "fst (center mark) < rnd (rnd (real_of_int (cols data)) - radius mark)"
    "radius mark \<le> snd (center mark)"
    "snd (center mark) < rnd (rnd (real_of_int (rows data)) - radius mark)"
    by (simp_all add: init_guard_def)
  note x = init_axis [OF assms(1) nn(1) assms(3) assms(6) g(1,2)]
  note y = init_axis [OF assms(1) nn(2) assms(4) assms(6) g(3,4)]
  show ?thesis by (simp add: patch_rect_def x(1,2) y(1))
qed

lemma patch_rect_inside:
  assumes "float_rounding rnd" "wf_Mat data" "cols data \<le> 2 ^ 21" "rows data \<le> 2 ^ 21"
    and "init_guard rnd data mark" "0 \<le> radius mark"
  shows "\<exists>c. crop data (patch_rect rnd mark) = Some c"
proof -
  from assms(2) have nn: "0 \<le> cols data" "0 \<le> rows data" by (simp_all add: wf_Mat_def)
  from assms(5) have g: "radius mark \<le> fst (center mark)"
    "fst (center mark) < rnd (rnd (real_of_int (cols data)) - radius mark)"
    "radius mark \<le> snd (center mark)"
    "snd (center mark) < rnd (rnd (real_of_int (rows data)) - radius mark)"
    by (simp_all add: init_guard_def)
  note x = init_axis [OF assms(1) nn(1) assms(3) assms(6) g(1,2)]
  note y = init_axis [OF assms(1) nn(2) assms(4) assms(6) g(3,4)]
  show ?thesis
    unfolding patch_rect_floor [OF assms]
    using x(3,4,5) y(3,5) by (simp add: crop_def)
qed

lemma InitTrackerData_cases:
  assumes "float_rounding rnd" "wf_Mat data" "cols data \<le> 2 ^ 21" "rows data \<le> 2 ^ 21"
    and "mark_type mark = kCircle" "0 \<le> radius mark"
  shows "InitTrackerData rnd data mark d0 =
     (if init_guard rnd data mark
      then Inr (True, \<lparr>search_template = the (crop data (patch_rect rnd mark)),
                       tpl_radius = radius mark\<rparr>)
      else Inr (False, d0))"
proof (cases "init_guard rnd data mark")
  case True
  from patch_rect_inside [OF assms(1-4) True assms(6)] obtain c where
    c: "crop data (patch_rect rnd mark) = Some c" ..
  with True assms(5) show ?thesis
    by (simp add: InitTrackerData_def Let_def patch_rect_def [symmetric] init_guard_def
        not_le not_less)
next
  case False
  with assms(5) show ?thesis
    by (auto simp add: InitTrackerData_def Let_def init_guard_def not_le not_less)
qed

lemma spec_bound_implies:
  assumes fr: "float_rounding rnd" and wf: "wf_Mat data"
    and sz: "cols data \<le> 2 ^ 21" "rows data \<le> 2 ^ 21"
    and r0: "0 \<le> radius mark" and sb: "spec_init_bound data mark"
  shows "init_guard rnd data mark"
proof -
  have ax: "x < rnd (rnd (real_of_int c) - r)"
    if c: "0 \<le> c" "c \<le> 2 ^ 21" and b: "0 \<le> r" "r \<le> x" "r \<le> real_of_int c - 1 - x"
    for c :: int and r x :: real
  proof -
    from c have cc: "\<bar>c\<bar> \<le> 2 ^ 22" by simp
    have rc: "rnd (real_of_int c) = real_of_int c"
      using float_rounding_facts(3) [OF fr cc] .
    have creal: "real_of_int c \<le> 2 ^ 21"
      using c(2) by (metis of_int_le_iff of_int_numeral of_int_power)
    have "\<bar>real_of_int c - r\<bar> \<le> 2 ^ 22" using b creal by simp
    from float_rounding_facts(4) [OF fr this] b show ?thesis unfolding rc by linarith
  qed
  from wf have nn: "0 \<le> cols data" "0 \<le> rows data" by (simp_all add: wf_Mat_def)
  from sb have s: "radius mark \<le> fst (center mark)" "radius mark \<le> snd (center mark)"
    "radius mark \<le> real_of_int (cols data) - 1 - fst (center mark)"
    "radius mark \<le> real_of_int (rows data) - 1 - snd (center mark)"
    by (simp_all add: spec_init_bound_def)
  from ax [OF nn(1) sz(1) r0 s(1) s(3)] ax [OF nn(2) sz(2) r0 s(2) s(4)] s(1,2)
  show ?thesis by (simp add: init_guard_def)
qed

lemma spec_bound_integers:
  assumes fr: "float_rounding rnd" and wf: "wf_Mat data"
    and sz: "cols data \<le> 2 ^ 21" "rows data \<le> 2 ^ 21"
    and r0: "0 \<le> radius mark"
    and ints: "fst (center mark) \<in> \<int>" "snd (center mark) \<in> \<int>" "radius mark \<in> \<int>"
  shows "init_guard rnd data mark \<longleftrightarrow> spec_init_bound data mark"
proof
  assume "spec_init_bound data mark"
  then show "init_guard rnd data mark" by (rule spec_bound_implies [OF fr wf sz r0])
next
  assume g: "init_guard rnd data mark"
  have ax: "real_of_int k \<le> real_of_int c - 1 - real_of_int a"
    if c: "0 \<le> c" "c \<le> 2 ^ 21" and b: "0 \<le> real_of_int k" "real_of_int k \<le> real_of_int a"
      "real_of_int a < rnd (rnd (real_of_int c) - real_of_int k)"
    for c k a :: int
  proof -
    from c have cc: "\<bar>c\<bar> \<le> 2 ^ 22" by simp
    have rc: "rnd (real_of_int c) = real_of_int c"
      using float_rounding_facts(3) [OF fr cc] .
    have kc: "k \<le> c"
    proof (rule ccontr)
      assume "\<not> k \<le> c"
      then have "real_of_int c - real_of_int k \<le> 0" by simp
      from float_rounding_facts(2) [OF fr this] b rc show False by simp
    qed
    from b(1) have "0 \<le> k" by simp
    with kc c have "\<bar>c - k\<bar> \<le> 2 ^ 22" by simp
    from float_rounding_facts(3) [OF fr this] have "rnd (real_of_int c - real_of_int k) = real_of_int (c - k)"
      by simp
    with b(3) rc have "real_of_int a < real_of_int (c - k)" by simp
    then have "a < c - k" by (simp only: of_int_less_iff)
    then have "k \<le> c - 1 - a" by simp
    then have "real_of_int k \<le> real_of_int (c - 1 - a)" by (simp only: of_int_le_iff)
    then show ?thesis by simp
  qed
  from ints obtain a b k where e: "fst (center mark) = of_int a" "snd (center mark) = of_int b"
    "radius mark = of_int k"
    by (auto elim!: Ints_cases)
  from wf have nn: "0 \<le> cols data" "0 \<le> rows data" by (simp_all add: wf_Mat_def)
  from g have gg: "real_of_int k \<le> real_of_int a"
    "real_of_int a < rnd (rnd (real_of_int (cols data)) - real_of_int k)"
    "real_of_int k \<le> real_of_int b"
    "real_of_int b < rnd (rnd (real_of_int (rows data)) - real_of_int k)"
    by (simp_all add: init_guard_def e)
  from r0 have k0: "0 \<le> real_of_int k" by (simp add: e)
  from ax [OF nn(1) sz(1) k0 gg(1,2)] ax [OF nn(2) sz(2) k0 gg(3,4)] gg(1,3)
  show "spec_init_bound data mark" by (simp add: spec_init_bound_def e)
qed

lemma rounding_init:
  "InitTrackerData (round_binary 24) rounding_image
     \<lparr>mark_type = kCircle, center = (12792627 / 2097152, 2), radius = 9227469 / 8388608\<rparr>
     TemplateData_new =
   Inr (True, \<lparr>search_template = \<lparr>rows = 2, cols = 2, cells = [[5,6],[15,16]]\<rparr>,
               tpl_radius = 9227469 / 8388608\<rparr>)"
  "InitTrackerData (round_binary 24) rounding_image
     \<lparr>mark_type = kCircle, center = (12792627 / 2097152, 2), radius = 15938355 / 8388608\<rparr>
     TemplateData_new =
   Inr (False, TemplateData_new)"
  by (simp_all add: InitTrackerData_def rounding_image_def round_binary_numeral
      round_binary_inexact round_binary_exact crop_def to_int_def Let_def)

text \<open>
  Claim C1, as amended. Let the rounding of the floating-point format keep signs, be
  exact on integers and move values by at most \<open>1/4\<close> (up to \<open>2^22\<close>), and let the
  image be well-formed with at most \<open>2^21\<close> rows and columns. For a circle mark with
  non-negative radius, \<^verbatim>\<open>InitTrackerData\<close> succeeds if and only if
  \<open>radius \<le> center.x < fl(cols - radius)\<close> and \<open>radius \<le> center.y < fl(rows - radius)\<close>,
  where \<open>fl\<close> is the rounded result the program computes; otherwise it returns false and
  leaves the tracker data untouched. The bound of the specification implies this
  condition, and is equivalent to it when the coordinates and the radius are whole
  numbers. On success the stored radius is the mark's and the stored patch is the square
  of side \<open>\<lfloor>fl(2 * radius)\<rfloor>\<close> whose top-left cell is the image cell
  \<open>(\<lfloor>fl(center.x - radius)\<rfloor>, \<lfloor>fl(center.y - radius)\<rfloor>)\<close>; these differ from
  \<open>2 * radius\<close> and \<open>center - radius\<close> by less than \<open>5/4\<close> downwards and at most \<open>1/4\<close>
  upwards.
\<close>

theorem InitTrackerData_success:
  assumes "float_rounding rnd" "wf_Mat data" "cols data \<le> 2 ^ 21" "rows data \<le> 2 ^ 21"
    and "mark_type mark = kCircle" "0 \<le> radius mark"
  shows "((\<exists>tpl. InitTrackerData rnd data mark d0 = Inr (True, tpl)) \<longleftrightarrow>
            init_guard rnd data mark) \<and>
    (\<not> init_guard rnd data mark \<longrightarrow> InitTrackerData rnd data mark d0 = Inr (False, d0)) \<and>
    (spec_init_bound data mark \<longrightarrow> init_guard rnd data mark) \<and>
    (fst (center mark) \<in> \<int> \<and> snd (center mark) \<in> \<int> \<and> radius mark \<in> \<int> \<longrightarrow>
       (init_guard rnd data mark \<longleftrightarrow> spec_init_bound data mark)) \<and>
    (\<forall>tpl. InitTrackerData rnd data mark d0 = Inr (True, tpl) \<longrightarrow>
       tpl_radius tpl = radius mark \<and>
       crop data (patch_rect rnd mark) = Some (search_template tpl) \<and>
       rect_x (patch_rect rnd mark) = \<lfloor>rnd (fst (center mark) - radius mark)\<rfloor> \<and>
       rect_y (patch_rect rnd mark) = \<lfloor>rnd (snd (center mark) - radius mark)\<rfloor> \<and>
       rows (search_template tpl) = \<lfloor>rnd (2 * radius mark)\<rfloor> \<and>
       cols (search_template tpl) = \<lfloor>rnd (2 * radius mark)\<rfloor> \<and>
       (\<forall>i j. 0 \<le> i \<and> i < \<lfloor>rnd (2 * radius mark)\<rfloor> \<and>
              0 \<le> j \<and> j < \<lfloor>rnd (2 * radius mark)\<rfloor> \<longrightarrow>
          cell (search_template tpl) (i, j) =
            cell data (\<lfloor>rnd (fst (center mark) - radius mark)\<rfloor> + i,
                       \<lfloor>rnd (snd (center mark) - radius mark)\<rfloor> + j)) \<and>
       fst (center mark) - radius mark - 5/4 <
         real_of_int \<lfloor>rnd (fst (center mark) - radius mark)\<rfloor> \<and>
       real_of_int \<lfloor>rnd (fst (center mark) - radius mark)\<rfloor> \<le>
         fst (center mark) - radius mark + 1/4 \<and>
       snd (center mark) - radius mark - 5/4 <
         real_of_int \<lfloor>rnd (snd (center mark) - radius mark)\<rfloor> \<and>
       real_of_int \<lfloor>rnd (snd (center mark) - radius mark)\<rfloor> \<le>
         snd (center mark) - radius mark + 1/4 \<and>
       2 * radius mark - 5/4 < real_of_int \<lfloor>rnd (2 * radius mark)\<rfloor> \<and>
       real_of_int \<lfloor>rnd (2 * radius mark)\<rfloor> \<le> 2 * radius mark + 1/4)"
proof -
  let ?x = "fst (center mark)" and ?y = "snd (center mark)" and ?r = "radius mark"
  note c = InitTrackerData_cases [OF assms, of d0]
  have 1: "(\<exists>tpl. InitTrackerData rnd data mark d0 = Inr (True, tpl)) \<longleftrightarrow>
      init_guard rnd data mark"
    by (simp add: c)
  have 2: "\<not> init_guard rnd data mark \<longrightarrow> InitTrackerData rnd data mark d0 = Inr (False, d0)"
    by (simp add: c)
  have 3: "spec_init_bound data mark \<longrightarrow> init_guard rnd data mark"
    using spec_bound_implies [OF assms(1-4) assms(6)] by blast
  have 4: "?x \<in> \<int> \<and> ?y \<in> \<int> \<and> ?r \<in> \<int> \<longrightarrow>
       (init_guard rnd data mark \<longleftrightarrow> spec_init_bound data mark)"
    using spec_bound_integers [OF assms(1-4) assms(6)] by blast
  have 5: "tpl_radius tpl = ?r \<and>
       crop data (patch_rect rnd mark) = Some (search_template tpl) \<and>
       rect_x (patch_rect rnd mark) = \<lfloor>rnd (?x - ?r)\<rfloor> \<and>
       rect_y (patch_rect rnd mark) = \<lfloor>rnd (?y - ?r)\<rfloor> \<and>
       rows (search_template tpl) = \<lfloor>rnd (2 * ?r)\<rfloor> \<and>
       cols (search_template tpl) = \<lfloor>rnd (2 * ?r)\<rfloor> \<and>
       (\<forall>i j. 0 \<le> i \<and> i < \<lfloor>rnd (2 * ?r)\<rfloor> \<and> 0 \<le> j \<and> j < \<lfloor>rnd (2 * ?r)\<rfloor> \<longrightarrow>
          cell (search_template tpl) (i, j) =
            cell data (\<lfloor>rnd (?x - ?r)\<rfloor> + i, \<lfloor>rnd (?y - ?r)\<rfloor> + j)) \<and>
       ?x - ?r - 5/4 < real_of_int \<lfloor>rnd (?x - ?r)\<rfloor> \<and>
       real_of_int \<lfloor>rnd (?x - ?r)\<rfloor> \<le> ?x - ?r + 1/4 \<and>
       ?y - ?r - 5/4 < real_of_int \<lfloor>rnd (?y - ?r)\<rfloor> \<and>
       real_of_int \<lfloor>rnd (?y - ?r)\<rfloor> \<le> ?y - ?r + 1/4 \<and>
       2 * ?r - 5/4 < real_of_int \<lfloor>rnd (2 * ?r)\<rfloor> \<and>
       real_of_int \<lfloor>rnd (2 * ?r)\<rfloor> \<le> 2 * ?r + 1/4"
    if s: "InitTrackerData rnd data mark d0 = Inr (True, tpl)" for tpl
  proof -
    from s c have g: "init_guard rnd data mark" by (auto split: if_splits)
    from patch_rect_inside [OF assms(1-4) g assms(6)] obtain p where
      p: "crop data (patch_rect rnd mark) = Some p" ..
    from s c g p have tpl: "tpl = \<lparr>search_template = p, tpl_radius = ?r\<rparr>" by simp
    note pf = patch_rect_floor [OF assms(1-4) g assms(6)]
    from crop_dims [OF p] have d: "rows p = \<lfloor>rnd (2 * ?r)\<rfloor>" "cols p = \<lfloor>rnd (2 * ?r)\<rfloor>"
      by (simp_all add: pf)
    have ce: "cell p (i, j) = cell data (\<lfloor>rnd (?x - ?r)\<rfloor> + i, \<lfloor>rnd (?y - ?r)\<rfloor> + j)"
      if "0 \<le> i \<and> i < \<lfloor>rnd (2 * ?r)\<rfloor> \<and> 0 \<le> j \<and> j < \<lfloor>rnd (2 * ?r)\<rfloor>" for i j
      using crop_cell [OF p assms(2), of i j] that by (simp add: pf)
    from assms(2) have nn: "0 \<le> cols data" "0 \<le> rows data" by (simp_all add: wf_Mat_def)
    from g have gg: "?r \<le> ?x" "?x < rnd (rnd (real_of_int (cols data)) - ?r)"
      "?r \<le> ?y" "?y < rnd (rnd (real_of_int (rows data)) - ?r)"
      by (simp_all add: init_guard_def)
    note x = init_axis [OF assms(1) nn(1) assms(3) assms(6) gg(1,2)]
    note y = init_axis [OF assms(1) nn(2) assms(4) assms(6) gg(3,4)]
    have "rect_x (patch_rect rnd mark) = \<lfloor>rnd (?x - ?r)\<rfloor>"
      "rect_y (patch_rect rnd mark) = \<lfloor>rnd (?y - ?r)\<rfloor>"
      by (simp_all add: pf)
    with tpl p d ce x(6-9) y(6,7) show ?thesis by simp
  qed
  from 1 2 3 4 5 show ?thesis by blast
qed

text \<open>
  Witness for C1, in single precision: in the 8-by-4 image the circle at \<open>(6.1, 2)\<close>
  with radius 1.1 is accepted and its patch starts at column 5, since the rounded
  difference \<open>6.1 - 1.1\<close> is 5; with radius 1.9 the same center is refused, since the
  rounded difference \<open>8 - 1.9\<close> is the center's \<open>x\<close>. In a 100-by-100 image the circle at
  \<open>(50, 50)\<close> with radius 10 is accepted with a 20-by-20 patch, and the circle at
  \<open>(5, 5)\<close> with radius 10 is refused.
\<close>

theorem InitTrackerData_success_witness:
  "float_rounding (round_binary 24) \<and> wf_Mat rounding_image \<and>
   InitTrackerData (round_binary 24) rounding_image
     \<lparr>mark_type = kCircle, center = (12792627 / 2097152, 2), radius = 9227469 / 8388608\<rparr>
     TemplateData_new =
   Inr (True, \<lparr>search_template = \<lparr>rows = 2, cols = 2, cells = [[5,6],[15,16]]\<rparr>,
               tpl_radius = 9227469 / 8388608\<rparr>) \<and>
   InitTrackerData (round_binary 24) rounding_image
     \<lparr>mark_type = kCircle, center = (12792627 / 2097152, 2), radius = 15938355 / 8388608\<rparr>
     TemplateData_new =
   Inr (False, TemplateData_new) \<and>
   (\<exists>tpl. InitTrackerData (round_binary 24)
            \<lparr>rows = 100, cols = 100, cells = replicate 100 (replicate 100 0)\<rparr>
            \<lparr>mark_type = kCircle, center = (50, 50), radius = 10\<rparr> TemplateData_new =
          Inr (True, tpl) \<and>
          rows (search_template tpl) = 20 \<and> cols (search_template tpl) = 20) \<and>
   InitTrackerData (round_binary 24)
     \<lparr>rows = 100, cols = 100, cells = replicate 100 (replicate 100 0)\<rparr>
     \<lparr>mark_type = kCircle, center = (5, 5), radius = 10\<rparr> TemplateData_new =
   Inr (False, TemplateData_new)"
proof -
  let ?img = "\<lparr>rows = 100, cols = 100, cells = replicate 100 (replicate 100 (0::int))\<rparr>"
  let ?rnd = "round_binary 24"
  have fr: "float_rounding ?rnd" by (rule float_rounding_binary) simp
  have w: "wf_Mat ?img" by (simp add: wf_Mat_def list_all_iff)
  have sz: "cols ?img \<le> 2 ^ 21" "rows ?img \<le> 2 ^ 21" by simp_all
  have ma: "mark_type \<lparr>mark_type = kCircle, center = (50, 50), radius = 10\<rparr> = kCircle"
    "0 \<le> radius \<lparr>mark_type = kCircle, center = (50, 50), radius = 10\<rparr>"
    by simp_all
  have mb: "mark_type \<lparr>mark_type = kCircle, center = (5, 5), radius = 10\<rparr> = kCircle"
    "0 \<le> radius \<lparr>mark_type = kCircle, center = (5, 5), radius = 10\<rparr>"
    by simp_all
  note a = InitTrackerData_success [OF fr w sz ma, of TemplateData_new]
  note b = InitTrackerData_success [OF fr w sz mb, of TemplateData_new]
  have ga: "init_guard ?rnd ?img \<lparr>mark_type = kCircle, center = (50, 50), radius = 10\<rparr>"
    by (simp add: init_guard_def round_binary_numeral)
  have gb: "\<not> init_guard ?rnd ?img \<lparr>mark_type = kCircle, center = (5, 5), radius = 10\<rparr>"
    by (simp add: init_guard_def)
  from a ga obtain tpl where t: "InitTrackerData ?rnd ?img
            \<lparr>mark_type = kCircle, center = (50, 50), radius = 10\<rparr> TemplateData_new =
          Inr (True, tpl)" by blast
  with a have "rows (search_template tpl) = \<lfloor>?rnd (2 * (10::real))\<rfloor> \<and>
      cols (search_template tpl) = \<lfloor>?rnd (2 * (10::real))\<rfloor>"
    by simp
  then have "rows (search_template tpl) = 20 \<and> cols (search_template tpl) = 20"
    by (simp add: round_binary_numeral)
  moreover from b gb have "InitTrackerData ?rnd ?img
     \<lparr>mark_type = kCircle, center = (5, 5), radius = 10\<rparr> TemplateData_new =
   Inr (False, TemplateData_new)" by simp
  moreover have "wf_Mat rounding_image" by (simp add: rounding_image_def wf_Mat_def)
  ultimately show ?thesis using t fr rounding_init by blast
qed

text \<open>
  Counterexample for C1 as stated: in a 4-by-4 image the circle at \<open>(5/2, 5/2)\<close> with
  radius 1 violates the specification's bound (\<open>4 - 1 - 5/2 < 1\<close>), yet
  \<^verbatim>\<open>InitTrackerData\<close> succeeds, with the patch of columns and rows 1 to 2; all values are
  exact in single precision. And a circle with the negative radius -1 satisfies the
  bound, passes the check of the program and ends in the library's exception for a
  rectangle of negative size.
\<close>

theorem InitTrackerData_bound_counterexample:
  "InitTrackerData (round_binary 24)
     \<lparr>rows = 4, cols = 4, cells = [[0,0,0,0],[0,1,2,0],[0,3,4,0],[0,0,0,0]]\<rparr>
     \<lparr>mark_type = kCircle, center = (5/2, 5/2), radius = 1\<rparr> TemplateData_new =
   Inr (True, \<lparr>search_template = \<lparr>rows = 2, cols = 2, cells = [[1,2],[3,4]]\<rparr>, tpl_radius = 1\<rparr>) \<and>
   \<not> spec_init_bound \<lparr>rows = 4, cols = 4, cells = [[0,0,0,0],[0,1,2,0],[0,3,4,0],[0,0,0,0]]\<rparr>
     \<lparr>mark_type = kCircle, center = (5/2, 5/2), radius = 1\<rparr> \<and>
   spec_init_bound \<lparr>rows = 4, cols = 4, cells = [[0,0,0,0],[0,1,2,0],[0,3,4,0],[0,0,0,0]]\<rparr>
     \<lparr>mark_type = kCircle, center = (2, 2), radius = - 1\<rparr> \<and>
   InitTrackerData (round_binary 24)
     \<lparr>rows = 4, cols = 4, cells = [[0,0,0,0],[0,1,2,0],[0,3,4,0],[0,0,0,0]]\<rparr>
     \<lparr>mark_type = kCircle, center = (2, 2), radius = - 1\<rparr> TemplateData_new =
   Inl CvException"
  by (simp add: InitTrackerData_def crop_def to_int_def spec_init_bound_def round_binary_numeral)

section \<open>Properties of the scan for the extremes\<close>

lemma in_positions:
  "(i, j) \<in> set (positions m) \<longleftrightarrow> 0 \<le> i \<and> i < cols m \<and> 0 \<le> j \<and> j < rows m"
proof
  assume "(i, j) \<in> set (positions m)"
  then show "0 \<le> i \<and> i < cols m \<and> 0 \<le> j \<and> j < rows m"
    by (auto simp: positions_def)
next
  assume a: "0 \<le> i \<and> i < cols m \<and> 0 \<le> j \<and> j < rows m"
  then have "nat j \<in> {0..<nat (rows m)}" "nat i \<in> {0..<nat (cols m)}"
    "(i, j) = (int (nat i), int (nat j))"
    by auto
  then have "\<exists>b\<in>{0..<nat (rows m)}. (i, j) \<in> (\<lambda>a. (int a, int b)) ` {0..<nat (cols m)}"
    by blast
  then show "(i, j) \<in> set (positions m)"
    by (simp add: positions_def)
qed

lemma set_positions:
  "set (positions m) = {(i, j). 0 \<le> i \<and> i < cols m \<and> 0 \<le> j \<and> j < rows m}"
  using in_positions by auto

lemma sorted_positions: "sorted_wrt scan_before (positions m)"
proof -
  have row: "\<And>j :: nat. sorted_wrt scan_before (map (\<lambda>i. (int i, int j)) [0..<nat (cols m)])"
    by (simp add: sorted_wrt_map scan_before_def)
  have "sorted_wrt scan_before
          (concat (map (\<lambda>j. map (\<lambda>i. (int i, int j)) [0..<nat (cols m)]) [0..<h]))" for h
  proof (induction h)
    case 0
    then show ?case by simp
  next
    case (Suc h)
    have "\<forall>p\<in>set (concat (map (\<lambda>j. map (\<lambda>i. (int i, int j)) [0..<nat (cols m)]) [0..<h])).
          \<forall>q\<in>set (map (\<lambda>i. (int i, int h)) [0..<nat (cols m)]). scan_before p q"
      by (auto simp: scan_before_def)
    with Suc row [of h] show ?case
      by (simp add: sorted_wrt_append)
  qed
  then show ?thesis by (simp add: positions_def)
qed

lemma scan_before_trans: "scan_before p q \<Longrightarrow> scan_before q r \<Longrightarrow> scan_before p r"
  by (auto simp: scan_before_def)

lemma scan_before_total: "p \<noteq> q \<Longrightarrow> scan_before p q \<or> scan_before q p"
  by (cases p, cases q) (auto simp: scan_before_def)

lemma scan_before_irrefl: "\<not> scan_before p p"
  by (simp add: scan_before_def)

lemma sorted_masked_positions: "sorted_wrt scan_before (masked_positions m k)"
  by (cases k) (simp_all add: masked_positions_def sorted_positions sorted_wrt_filter)

lemma masked_positions_None: "masked_positions m None = positions m"
  by (simp add: masked_positions_def)

lemma positions_nonempty: "0 < rows m \<Longrightarrow> 0 < cols m \<Longrightarrow> positions m \<noteq> []"
proof -
  assume "0 < rows m" "0 < cols m"
  then have "(0, 0) \<in> set (positions m)" by (simp add: in_positions)
  then show ?thesis by auto
qed

text \<open>
  The invariant of the scan for the maximum: the best position so far splits the cells
  seen into strictly smaller ones before it and not larger ones after it.
\<close>

lemma scan_max_split:
  assumes "pre = xs @ b # ys" "\<forall>q\<in>set xs. f q < f b" "\<forall>q\<in>set ys. f q \<le> f b"
  shows "\<exists>xs' ys'. pre @ ps = xs' @ scan_max f b ps # ys' \<and>
           (\<forall>q\<in>set xs'. f q < f (scan_max f b ps)) \<and>
           (\<forall>q\<in>set ys'. f q \<le> f (scan_max f b ps))"
  using assms
proof (induction ps arbitrary: pre xs b ys)
  case Nil
  then show ?case by auto
next
  case (Cons p ps)
  show ?case
  proof (cases "f p > f b")
    case True
    have "pre @ [p] = (xs @ b # ys) @ p # []" using Cons.prems by simp
    moreover have "\<forall>q\<in>set (xs @ b # ys). f q < f p" using Cons.prems True by fastforce
    ultimately obtain xs' ys' where
      "(pre @ [p]) @ ps = xs' @ scan_max f p ps # ys'"
      "\<forall>q\<in>set xs'. f q < f (scan_max f p ps)" "\<forall>q\<in>set ys'. f q \<le> f (scan_max f p ps)"
      using Cons.IH [of "pre @ [p]" "xs @ b # ys" p "[]"] by auto
    with True show ?thesis by auto
  next
    case False
    have "pre @ [p] = xs @ b # (ys @ [p])" using Cons.prems by simp
    moreover have "\<forall>q\<in>set (ys @ [p]). f q \<le> f b" using Cons.prems False by auto
    ultimately obtain xs' ys' where
      "(pre @ [p]) @ ps = xs' @ scan_max f b ps # ys'"
      "\<forall>q\<in>set xs'. f q < f (scan_max f b ps)" "\<forall>q\<in>set ys'. f q \<le> f (scan_max f b ps)"
      using Cons.IH [of "pre @ [p]" xs b "ys @ [p]"] Cons.prems by auto
    with False show ?thesis by auto
  qed
qed

lemma scan_max_first:
  assumes "sorted_wrt scan_before (b # ps)"
  shows "scan_max f b ps \<in> set (b # ps) \<and>
         (\<forall>q\<in>set (b # ps). f q \<le> f (scan_max f b ps)) \<and>
         (\<forall>q\<in>set (b # ps). scan_before q (scan_max f b ps) \<longrightarrow> f q < f (scan_max f b ps))"
proof -
  let ?r = "scan_max f b ps"
  from scan_max_split [of "[b]" "[]" b "[]" f ps] obtain xs' ys' where
    s: "b # ps = xs' @ ?r # ys'" and l: "\<forall>q\<in>set xs'. f q < f ?r" and g: "\<forall>q\<in>set ys'. f q \<le> f ?r"
    by auto
  from assms s have o: "\<forall>q\<in>set ys'. scan_before ?r q"
    by (simp add: sorted_wrt_append)
  have "\<not> scan_before q ?r" if "q \<in> set ys'" for q
    using o that scan_before_trans scan_before_irrefl by blast
  moreover have "set (b # ps) = set xs' \<union> {?r} \<union> set ys'" by (simp add: s)
  ultimately show ?thesis using l g scan_before_irrefl by (auto simp del: set_simps(2))
qed

lemma scan_min_split:
  assumes "pre = xs @ b # ys" "\<forall>q\<in>set xs. f q > f b" "\<forall>q\<in>set ys. f q \<ge> f b"
  shows "\<exists>xs' ys'. pre @ ps = xs' @ scan_min f b ps # ys' \<and>
           (\<forall>q\<in>set xs'. f q > f (scan_min f b ps)) \<and>
           (\<forall>q\<in>set ys'. f q \<ge> f (scan_min f b ps))"
  using assms
proof (induction ps arbitrary: pre xs b ys)
  case Nil
  then show ?case by auto
next
  case (Cons p ps)
  show ?case
  proof (cases "f p < f b")
    case True
    have "pre @ [p] = (xs @ b # ys) @ p # []" using Cons.prems by simp
    moreover have "\<forall>q\<in>set (xs @ b # ys). f q > f p" using Cons.prems True by fastforce
    ultimately obtain xs' ys' where
      "(pre @ [p]) @ ps = xs' @ scan_min f p ps # ys'"
      "\<forall>q\<in>set xs'. f q > f (scan_min f p ps)" "\<forall>q\<in>set ys'. f q \<ge> f (scan_min f p ps)"
      using Cons.IH [of "pre @ [p]" "xs @ b # ys" p "[]"] by auto
    with True show ?thesis by auto
  next
    case False
    have "pre @ [p] = xs @ b # (ys @ [p])" using Cons.prems by simp
    moreover have "\<forall>q\<in>set (ys @ [p]). f q \<ge> f b" using Cons.prems False by auto
    ultimately obtain xs' ys' where
      "(pre @ [p]) @ ps = xs' @ scan_min f b ps # ys'"
      "\<forall>q\<in>set xs'. f q > f (scan_min f b ps)" "\<forall>q\<in>set ys'. f q \<ge> f (scan_min f b ps)"
      using Cons.IH [of "pre @ [p]" xs b "ys @ [p]"] Cons.prems by auto
    with False show ?thesis by auto
  qed
qed

lemma scan_min_least:
  "scan_min f b ps \<in> set (b # ps) \<and> (\<forall>q\<in>set (b # ps). f (scan_min f b ps) \<le> f q)"
proof -
  let ?r = "scan_min f b ps"
  from scan_min_split [of "[b]" "[]" b "[]" f ps] obtain xs' ys' where
    s: "b # ps = xs' @ ?r # ys'" and l: "\<forall>q\<in>set xs'. f q > f ?r" and g: "\<forall>q\<in>set ys'. f q \<ge> f ?r"
    by auto
  have "set (b # ps) = set xs' \<union> {?r} \<union> set ys'" by (simp add: s)
  then show ?thesis using l g by (auto simp del: set_simps(2))
qed

text \<open>
  What \<^verbatim>\<open>minMaxLoc\<close> returns when there is a cell to look at.
\<close>

lemma minMaxLoc_extremes:
  assumes "masked_positions m k \<noteq> []" "minMaxLoc m k = (mn, mx, lmn, lmx)"
  shows "lmn \<in> set (masked_positions m k) \<and> lmx \<in> set (masked_positions m k) \<and>
         mn = cell m lmn \<and> mx = cell m lmx \<and>
         (\<forall>q\<in>set (masked_positions m k). mn \<le> cell m q \<and> cell m q \<le> mx) \<and>
         (\<forall>q\<in>set (masked_positions m k). scan_before q lmx \<longrightarrow> cell m q < mx)"
proof -
  from assms(1) obtain p ps where c: "masked_positions m k = p # ps"
    by (cases "masked_positions m k") auto
  from sorted_masked_positions [of m k] c have s: "sorted_wrt scan_before (p # ps)" by simp
  from assms(2) c have e: "lmn = scan_min (cell m) p ps" "lmx = scan_max (cell m) p ps"
    "mn = cell m lmn" "mx = cell m lmx"
    by (auto simp: minMaxLoc_def Let_def)
  from scan_max_first [OF s, of "cell m"] scan_min_least [of "cell m" p ps] e c
  show ?thesis by simp
qed


lemma minMaxLoc_unique_max:
  assumes "masked_positions m k \<noteq> []" "minMaxLoc m k = (mn, mx, lmn, lmx)"
    and "r \<in> set (masked_positions m k)"
    and "\<forall>q\<in>set (masked_positions m k). cell m q \<le> cell m r"
    and "\<forall>q\<in>set (masked_positions m k). scan_before q r \<longrightarrow> cell m q < cell m r"
  shows "lmx = r"
proof (rule ccontr)
  assume n: "lmx \<noteq> r"
  from minMaxLoc_extremes [OF assms(1,2)] have
    a: "lmx \<in> set (masked_positions m k)" "mx = cell m lmx"
    and b: "\<forall>q\<in>set (masked_positions m k). cell m q \<le> mx"
    and c: "\<forall>q\<in>set (masked_positions m k). scan_before q lmx \<longrightarrow> cell m q < mx"
    by auto
  from scan_before_total [OF n] show False
  proof
    assume "scan_before lmx r"
    with assms(5) a have "cell m lmx < cell m r" by blast
    moreover from b assms(3) a have "cell m r \<le> cell m lmx" by blast
    ultimately show False by simp
  next
    assume "scan_before r lmx"
    with c assms(3) a have "cell m r < cell m lmx" by blast
    moreover from assms(4) a have "cell m lmx \<le> cell m r" by blast
    ultimately show False by simp
  qed
qed

section \<open>Properties of Search\<close>

lemma crop_whole: "wf_Mat m \<Longrightarrow> crop m (whole_image m) = Some m"
proof -
  assume w: "wf_Mat m"
  then have "map (\<lambda>row. take (nat (cols m)) row) (cells m) = cells m"
    by (intro map_idI) (simp add: wf_Mat_def list_all_iff)
  with w show ?thesis
    by (simp add: crop_def whole_image_def wf_Mat_def)
qed



lemma rect_and_whole_inside:
  assumes "wf_Mat data"
  shows "\<exists>c. crop data (rect_and a (whole_image data)) = Some c"
proof -
  let ?w = "min (rect_x a + rect_width a) (cols data) - max (rect_x a) 0"
  let ?h = "min (rect_y a + rect_height a) (rows data) - max (rect_y a) 0"
  show ?thesis
  proof (cases "?w \<le> 0 \<or> ?h \<le> 0")
    case True
    then have "rect_and a (whole_image data) =
        \<lparr>rect_x = 0, rect_y = 0, rect_width = 0, rect_height = 0\<rparr>"
      by (simp add: rect_and_def whole_image_def Let_def)
    with assms show ?thesis by (simp add: crop_def wf_Mat_def)
  next
    case False
    then have "rect_and a (whole_image data) =
        \<lparr>rect_x = max (rect_x a) 0, rect_y = max (rect_y a) 0, rect_width = ?w, rect_height = ?h\<rparr>"
      by (simp add: rect_and_def whole_image_def Let_def)
    with False show ?thesis by (simp add: crop_def) arith
  qed
qed

lemma rect_and_nonempty:
  assumes "0 < rect_width (rect_and a b)"
  shows "rect_x (rect_and a b) = max (rect_x a) (rect_x b) \<and>
         rect_x (rect_and a b) + rect_width (rect_and a b) =
           min (rect_x a + rect_width a) (rect_x b + rect_width b) \<and>
         rect_y (rect_and a b) = max (rect_y a) (rect_y b) \<and>
         rect_y (rect_and a b) + rect_height (rect_and a b) =
           min (rect_y a + rect_height a) (rect_y b + rect_height b)"
proof (cases "min (rect_x a + rect_width a) (rect_x b + rect_width b) - max (rect_x a) (rect_x b) \<le> 0 \<or>
         min (rect_y a + rect_height a) (rect_y b + rect_height b) - max (rect_y a) (rect_y b) \<le> 0")
  case True
  then have "rect_and a b = \<lparr>rect_x = 0, rect_y = 0, rect_width = 0, rect_height = 0\<rparr>"
    by (simp add: rect_and_def Let_def)
  with assms show ?thesis by simp
next
  case False
  then have "rect_and a b = \<lparr>rect_x = max (rect_x a) (rect_x b), rect_y = max (rect_y a) (rect_y b),
      rect_width = min (rect_x a + rect_width a) (rect_x b + rect_width b) - max (rect_x a) (rect_x b),
      rect_height = min (rect_y a + rect_height a) (rect_y b + rect_height b) - max (rect_y a) (rect_y b)\<rparr>"
    by (simp add: rect_and_def Let_def)
  then show ?thesis by simp
qed

lemma extended_roi_inside:
  assumes "wf_Mat data"
  shows "\<exists>c. crop data (extended_roi data tpl roi) = Some c"
proof (cases roi)
  case None
  with crop_whole [OF assms] show ?thesis by (simp add: extended_roi_def)
next
  case (Some r)
  with rect_and_whole_inside [OF assms] show ?thesis by (simp add: extended_roi_def)
qed

lemma Rect_of_points_extend:
  assumes "0 \<le> rect_width r" "0 \<le> rect_height r"
    "0 \<le> cols (search_template tpl)" "0 \<le> rows (search_template tpl)"
  shows "Rect_of_points (TopLeft tpl (tl r)) (BottomRight tpl (br r)) = extend_by_half tpl r"
proof -
  from assms(3,4) have "0 \<le> cols (search_template tpl) div 2" "0 \<le> rows (search_template tpl) div 2"
    by simp_all
  with assms(1,2) show ?thesis
    by (simp add: Rect_of_points_def TopLeft_def BottomRight_def tl_def br_def extend_by_half_def
        min_def max_def)
qed

lemma matchTemplate_dims:
  "rows (matchTemplate img t) = rows img - rows t + 1 \<and>
   cols (matchTemplate img t) = cols img - cols t + 1"
  by (simp add: matchTemplate_def Let_def)

lemma matchTemplate_wf:
  "rows t \<le> rows img \<Longrightarrow> cols t \<le> cols img \<Longrightarrow> wf_Mat (matchTemplate img t)"
  by (simp add: matchTemplate_def Let_def wf_Mat_def list_all_iff)

lemma matchTemplate_cell:
  assumes "0 \<le> i" "i < cols img - cols t + 1" "0 \<le> j" "j < rows img - rows t + 1"
  shows "cell (matchTemplate img t) (i, j) =
     ccoeff_normed (concat (cells t))
       (concat (window img (nat i) (nat j) (nat (cols t)) (nat (rows t))))"
  using assms by (simp add: matchTemplate_def cell_def Let_def)

lemma match_result_dims:
  assumes "wf_Mat data"
  shows "\<exists>scores. match_result data tpl roi = Inr scores \<and>
     rows scores = rect_height (extended_roi data tpl roi) - rows (search_template tpl) + 1 \<and>
     cols scores = rect_width (extended_roi data tpl roi) - cols (search_template tpl) + 1"
proof -
  from extended_roi_inside [OF assms] obtain c where
    c: "crop data (extended_roi data tpl roi) = Some c" by blast
  from crop_dims [OF c] c show ?thesis
    by (simp add: match_result_def matchTemplate_dims)
qed


lemma Search_by_extremes:
  assumes "search_extremes data tpl roi msk = Inr (Some (mn, mx, lmn, lmx))"
  shows "Search data tpl roi msk thr =
           (if mx - mn \<le> thr then Inr None else Inr (Some (found_mark data tpl roi lmx)))"
  using assms by (simp add: Search_def Let_def TopLeft_def found_mark_def)

lemma Search_Some_extremes:
  assumes "Search data tpl roi msk thr = Inr (Some m)"
  obtains mn mx lmn lmx where
    "search_extremes data tpl roi msk = Inr (Some (mn, mx, lmn, lmx))"
    "thr < mx - mn" "m = found_mark data tpl roi lmx"
proof -
  from assms obtain mn mx lmn lmx where
    e: "search_extremes data tpl roi msk = Inr (Some (mn, mx, lmn, lmx))"
    by (auto simp: Search_def split: sum.splits option.splits)
  from assms Search_by_extremes [OF e, of thr] have "thr < mx - mn" "m = found_mark data tpl roi lmx"
    by (auto split: if_splits)
  with e that show ?thesis by blast
qed

lemma search_extremes_Some_not_small:
  "search_extremes data tpl roi msk = Inr (Some x) \<Longrightarrow> \<not> small_roi data tpl roi"
  by (auto simp: search_extremes_def split: if_splits)

lemma search_extremes_unmasked:
  assumes "wf_Mat data" "\<not> small_roi data tpl roi"
    "crop data (extended_roi data tpl roi) = Some region"
  shows "search_extremes data tpl roi None =
           Inr (Some (minMaxLoc (matchTemplate region (search_template tpl)) None))"
  using assms by (simp add: search_extremes_def match_result_def)


lemma example_wf: "wf_Mat example_image"
  by (simp add: example_image_def wf_Mat_def)


lemma example_scores:
  "matchTemplate example_image (search_template example_template) =
     \<lparr>rows = 2, cols = 3, cells = [[1, 0, -1], [0, 0, 0]]\<rparr>"
  by (simp add: matchTemplate_def example_image_def example_template_def window_def
      ccoeff_normed_def centered_def upt_rec Let_def)

lemma example_extremes:
  "search_extremes example_image example_template None None =
     Inr (Some (-1, 1, (2, 0), (0, 0)))"
proof -
  have ns: "\<not> small_roi example_image example_template None"
    by (simp add: small_roi_def extended_roi_def whole_image_def example_image_def
        example_template_def)
  have cw: "crop example_image (extended_roi example_image example_template None) =
      Some example_image"
    using crop_whole [OF example_wf] by (simp add: extended_roi_def)
  have "minMaxLoc \<lparr>rows = 2, cols = 3, cells = [[1, 0, -1], [0, 0, 0 :: real]]\<rparr> None =
      (-1, 1, (2, 0), (0, 0))"
    by (simp add: minMaxLoc_def masked_positions_def positions_def upt_rec cell_def Let_def)
  with search_extremes_unmasked [OF example_wf ns cw] show ?thesis
    by (simp add: example_scores)
qed

lemma example_sub_extremes:
  "search_extremes example_image example_template (Some example_roi) None =
     Inr (Some (0, 1, (1, 0), (0, 0)))"
proof -
  have e: "extended_roi example_image example_template (Some example_roi) =
      \<lparr>rect_x = 0, rect_y = 0, rect_width = 3, rect_height = 3\<rparr>"
    by (simp add: extended_roi_def example_roi_def example_template_def example_image_def
        TopLeft_def BottomRight_def tl_def br_def Rect_of_points_def rect_and_def whole_image_def)
  have ns: "\<not> small_roi example_image example_template (Some example_roi)"
    by (simp add: small_roi_def e) (simp add: example_template_def)
  have cr: "crop example_image (extended_roi example_image example_template (Some example_roi)) =
      Some \<lparr>rows = 3, cols = 3, cells = [[1,0,0],[0,1,1],[0,1,1]]\<rparr>"
    by (simp add: e) (simp add: crop_def example_image_def)
  have m: "matchTemplate \<lparr>rows = 3, cols = 3, cells = [[1,0,0],[0,1,1],[0,1,1]]\<rparr>
      (search_template example_template) = \<lparr>rows = 2, cols = 2, cells = [[1, 0], [0, 0]]\<rparr>"
    by (simp add: matchTemplate_def example_template_def window_def
      ccoeff_normed_def centered_def upt_rec Let_def)
  have "minMaxLoc \<lparr>rows = 2, cols = 2, cells = [[1, 0], [0, 0 :: real]]\<rparr> None =
      (0, 1, (1, 0), (0, 0))"
    by (simp add: minMaxLoc_def masked_positions_def positions_def upt_rec cell_def Let_def)
  with search_extremes_unmasked [OF example_wf ns cr] show ?thesis
    by (simp add: m)
qed

lemma example_found_mark:
  "found_mark example_image example_template None (0, 0) = example_mark"
  "found_mark example_image example_template (Some example_roi) (0, 0) = example_mark"
  by (simp_all add: found_mark_def example_mark_def example_template_def extended_roi_def
      whole_image_def example_roi_def example_image_def
      TopLeft_def BottomRight_def tl_def br_def Rect_of_points_def rect_and_def)




lemma search_extremes_Some_cases:
  assumes "search_extremes data tpl roi msk = Inr (Some e)"
  shows "\<exists>scores k. match_result data tpl roi = Inr scores \<and>
           (msk = None \<and> k = None \<or>
            (\<exists>m sh. msk = Some m \<and>
               shifted_mask tpl (extended_roi data tpl roi) scores m = Inr sh \<and> k = Some sh)) \<and>
           e = minMaxLoc scores k"
  using assms
  by (auto simp: search_extremes_def split: if_splits sum.splits option.splits)

lemma minMaxLoc_no_cell:
  "masked_positions m k = [] \<Longrightarrow> minMaxLoc m k = (0, 0, (-1, -1), (-1, -1))"
  by (simp add: minMaxLoc_def)





subsection \<open>Searching the image the template was taken from\<close>















subsection \<open>Searching a sub-region\<close>

lemma take_drop_take: "j + h \<le> H \<Longrightarrow> take h (drop j (take H xs)) = take h (drop j xs)"
  by (simp add: drop_take min_def)

lemma window_crop:
  assumes "crop data e = Some region"
    and "i + w \<le> nat (rect_width e)" "j + h \<le> nat (rect_height e)"
  shows "window region i j w h = window data (i + nat (rect_x e)) (j + nat (rect_y e)) w h"
proof -
  from assms(1) have c: "cells region =
      map (\<lambda>row. take (nat (rect_width e)) (drop (nat (rect_x e)) row))
        (take (nat (rect_height e)) (drop (nat (rect_y e)) (cells data)))"
    by (auto simp: crop_def split: if_splits)
  have r: "take w (drop i (take (nat (rect_width e)) (drop (nat (rect_x e)) row))) =
        take w (drop (i + nat (rect_x e)) row)" for row :: "'b list"
    using assms(2) by (simp add: take_drop_take add.commute)
  have "take h (drop j (take (nat (rect_height e)) (drop (nat (rect_y e)) (cells data)))) =
        take h (drop (j + nat (rect_y e)) (cells data))"
    using assms(3) by (simp add: take_drop_take add.commute)
  then show ?thesis
    by (simp add: window_def c drop_map take_map r o_def)
qed

lemma matchTemplate_crop_cell:
  assumes "crop data e = Some region"
    and "0 \<le> i" "i < rect_width e - cols t + 1" "0 \<le> j" "j < rect_height e - rows t + 1"
    and "0 \<le> cols t" "0 \<le> rows t"
  shows "cell (matchTemplate region t) (i, j) = cell (matchTemplate data t) (i + rect_x e, j + rect_y e)"
proof -
  from crop_dims [OF assms(1)] have d: "rows region = rect_height e" "cols region = rect_width e"
    by simp_all
  from crop_inside [OF assms(1)] have b: "0 \<le> rect_x e" "rect_x e + rect_width e \<le> cols data"
    "0 \<le> rect_y e" "rect_y e + rect_height e \<le> rows data"
    by simp_all
  have 1: "cell (matchTemplate region t) (i, j) =
     ccoeff_normed (concat (cells t))
       (concat (window region (nat i) (nat j) (nat (cols t)) (nat (rows t))))"
    using assms d by (intro matchTemplate_cell) simp_all
  have 2: "cell (matchTemplate data t) (i + rect_x e, j + rect_y e) =
     ccoeff_normed (concat (cells t))
       (concat (window data (nat (i + rect_x e)) (nat (j + rect_y e)) (nat (cols t)) (nat (rows t))))"
    using assms b by (intro matchTemplate_cell) linarith+
  have "window region (nat i) (nat j) (nat (cols t)) (nat (rows t)) =
        window data (nat i + nat (rect_x e)) (nat j + nat (rect_y e)) (nat (cols t)) (nat (rows t))"
    using assms by (intro window_crop) linarith+
  moreover have "nat i + nat (rect_x e) = nat (i + rect_x e)" "nat j + nat (rect_y e) = nat (j + rect_y e)"
    using assms b by linarith+
  ultimately show ?thesis using 1 2 by simp
qed

lemma scan_before_shift:
  "scan_before (a, b) (c, d) \<Longrightarrow> scan_before (a + x, b + y) (c + x, d + y)"
  by (simp add: scan_before_def)

text \<open>
  Claim C8, as amended. For a well-formed image, a non-empty template and a region of
  non-negative size: when the search of the region finds a mark at some threshold, the
  search of the whole image finds one at the same threshold; and when the region contains
  the center of the mark that the whole-image search finds (at any threshold), both
  searches return that same mark. The converse fails: the score minimum over the region
  can be higher than over the whole image, so the region's confidence can be lower.
\<close>

theorem Search_subregion:
  assumes wf: "wf_Mat data"
    and t: "0 < cols (search_template tpl)" "0 < rows (search_template tpl)"
    and r: "0 \<le> rect_width r" "0 \<le> rect_height r"
    and sub: "Search data tpl (Some r) None thr = Inr (Some m')"
  shows "(\<exists>m. Search data tpl None None thr = Inr (Some m)) \<and>
         (\<forall>m thr0. Search data tpl None None thr0 = Inr (Some m) \<and> rect_contains r (center m) \<longrightarrow>
            m' = m \<and> Search data tpl None None thr = Inr (Some m))"
proof -
  let ?t = "search_template tpl"
  let ?e = "extended_roi data tpl (Some r)"
  let ?hw = "cols ?t div 2" and ?hh = "rows ?t div 2"
  from sub obtain mns mxs lmns Ls where
    es: "search_extremes data tpl (Some r) None = Inr (Some (mns, mxs, lmns, Ls))"
    and thr: "thr < mxs - mns" and m': "m' = found_mark data tpl (Some r) Ls"
    by (rule Search_Some_extremes)
  from es have ns: "\<not> small_roi data tpl (Some r)" by (rule search_extremes_Some_not_small)
  then have ew: "cols ?t \<le> rect_width ?e" and eh: "rows ?t \<le> rect_height ?e"
    by (simp_all add: small_roi_def)
  from extended_roi_inside [OF wf] obtain region where cr: "crop data ?e = Some region" by blast
  let ?S = "matchTemplate region ?t"
  let ?W = "matchTemplate data ?t"
  from search_extremes_unmasked [OF wf ns cr] es
  have ss: "minMaxLoc ?S None = (mns, mxs, lmns, Ls)" by simp
  from crop_dims [OF cr] have rd: "rows region = rect_height ?e" "cols region = rect_width ?e"
    by simp_all
  from crop_inside [OF cr] have ins: "0 \<le> rect_x ?e" "rect_x ?e + rect_width ?e \<le> cols data"
    "0 \<le> rect_y ?e" "rect_y ?e + rect_height ?e \<le> rows data"
    by simp_all
  have Sd: "rows ?S = rect_height ?e - rows ?t + 1" "cols ?S = rect_width ?e - cols ?t + 1"
    by (simp_all add: matchTemplate_dims rd)
  have Wd: "rows ?W = rows data - rows ?t + 1" "cols ?W = cols data - cols ?t + 1"
    by (simp_all add: matchTemplate_dims)
  have Sne: "masked_positions ?S None \<noteq> []"
    using Sd ew eh by (simp add: masked_positions_def positions_nonempty)
  have nw: "\<not> small_roi data tpl None"
    using ew eh ins by (simp add: small_roi_def extended_roi_def whole_image_def)
  have cw: "crop data (extended_roi data tpl None) = Some data"
    using crop_whole [OF wf] by (simp add: extended_roi_def)
  obtain mnw mxw lmnw Lw where sw: "minMaxLoc ?W None = (mnw, mxw, lmnw, Lw)"
    by (metis prod_cases4)
  with search_extremes_unmasked [OF wf nw cw]
  have esw: "search_extremes data tpl None None = Inr (Some (mnw, mxw, lmnw, Lw))" by simp
  have Wne: "masked_positions ?W None \<noteq> []"
    using Wd ew eh ins by (simp add: masked_positions_def positions_nonempty)
  text \<open>Every cell of the sub-region's score map is a cell of the whole score map.\<close>
  have tr: "cell ?S (i, j) = cell ?W (i + rect_x ?e, j + rect_y ?e) \<and>
            (i + rect_x ?e, j + rect_y ?e) \<in> set (positions ?W)"
    if "(i, j) \<in> set (positions ?S)" for i j
  proof -
    from that Sd have b: "0 \<le> i" "i < rect_width ?e - cols ?t + 1" "0 \<le> j"
      "j < rect_height ?e - rows ?t + 1"
      by (simp_all add: in_positions)
    with cr t have "cell ?S (i, j) = cell ?W (i + rect_x ?e, j + rect_y ?e)"
      by (intro matchTemplate_crop_cell) simp_all
    moreover from b ins Wd have "(i + rect_x ?e, j + rect_y ?e) \<in> set (positions ?W)"
      by (simp add: in_positions)
    ultimately show ?thesis by simp
  qed
  from minMaxLoc_extremes [OF Sne ss] have
    S1: "lmns \<in> set (positions ?S)" "Ls \<in> set (positions ?S)"
      "mns = cell ?S lmns" "mxs = cell ?S Ls"
    unfolding masked_positions_None by blast+
  from minMaxLoc_extremes [OF Wne sw] have
    W1: "Lw \<in> set (positions ?W)" "mxw = cell ?W Lw"
    and W2: "\<forall>q\<in>set (positions ?W). mnw \<le> cell ?W q \<and> cell ?W q \<le> mxw"
    and W3: "\<forall>q\<in>set (positions ?W). scan_before q Lw \<longrightarrow> cell ?W q < mxw"
    unfolding masked_positions_None by blast+
  have "mxs \<le> mxw"
    using tr [of "fst Ls" "snd Ls"] S1 W2 by simp
  moreover have "mnw \<le> mns"
    using tr [of "fst lmns" "snd lmns"] S1 W2 by simp
  ultimately have "thr < mxw - mnw" using thr by simp
  with Search_by_extremes [OF esw, of thr]
  have whole: "Search data tpl None None thr = Inr (Some (found_mark data tpl None Lw))"
    by simp
  have second: "m' = m \<and> Search data tpl None None thr = Inr (Some m)"
    if w0: "Search data tpl None None thr0 = Inr (Some m)" and c: "rect_contains r (center m)"
    for m thr0
  proof -
    from w0 esw have m: "m = found_mark data tpl None Lw"
      by (auto elim!: Search_Some_extremes)
    obtain lx ly where L: "Lw = (lx, ly)" by (cases Lw)
    from W1 L Wd have lb: "0 \<le> lx" "lx < cols data - cols ?t + 1" "0 \<le> ly"
      "ly < rows data - rows ?t + 1"
      by (simp_all add: in_positions)
    from c have "real_of_int (rect_x r) \<le> real_of_int (lx + ?hw) \<and>
        real_of_int (lx + ?hw) < real_of_int (rect_x r + rect_width r) \<and>
        real_of_int (rect_y r) \<le> real_of_int (ly + ?hh) \<and>
        real_of_int (ly + ?hh) < real_of_int (rect_y r + rect_height r)"
      by (simp add: rect_contains_def m found_mark_def L extended_roi_def whole_image_def)
    then have cb: "rect_x r \<le> lx + ?hw" "lx + ?hw < rect_x r + rect_width r"
      "rect_y r \<le> ly + ?hh" "ly + ?hh < rect_y r + rect_height r"
      unfolding of_int_le_iff of_int_less_iff by simp_all
    from t r have ee: "?e = rect_and (extend_by_half tpl r) (whole_image data)"
      by (simp add: extended_roi_def Rect_of_points_extend)
    define hw where "hw = cols ?t div 2"
    define hh where "hh = rows ?t div 2"
    have half: "cols ?t \<le> 2 * hw + 1" "rows ?t \<le> 2 * hh + 1"
      unfolding hw_def hh_def by linarith+
    from ew t have "0 < rect_width ?e" by simp
    from rect_and_nonempty [OF this [unfolded ee]] have
      ex0: "rect_x ?e = max (rect_x (extend_by_half tpl r)) (rect_x (whole_image data))"
      "rect_x ?e + rect_width ?e =
         min (rect_x (extend_by_half tpl r) + rect_width (extend_by_half tpl r))
             (rect_x (whole_image data) + rect_width (whole_image data))"
      "rect_y ?e = max (rect_y (extend_by_half tpl r)) (rect_y (whole_image data))"
      "rect_y ?e + rect_height ?e =
         min (rect_y (extend_by_half tpl r) + rect_height (extend_by_half tpl r))
             (rect_y (whole_image data) + rect_height (whole_image data))"
      unfolding ee [symmetric] by blast+
    have ex: "rect_x ?e = max (rect_x r - hw) 0"
      "rect_x ?e + rect_width ?e = min (rect_x r - hw + (rect_width r + 2 * hw)) (cols data)"
      "rect_y ?e = max (rect_y r - hh) 0"
      "rect_y ?e + rect_height ?e = min (rect_y r - hh + (rect_height r + 2 * hh)) (rows data)"
      using ex0(1) apply (simp add: hw_def extend_by_half_def whole_image_def)
      using ex0(2) apply (simp add: hw_def extend_by_half_def whole_image_def)
      using ex0(3) apply (simp add: hh_def extend_by_half_def whole_image_def)
      using ex0(4) apply (simp add: hh_def extend_by_half_def whole_image_def)
      done
    from cb have cb': "rect_x r \<le> lx + hw" "lx + hw < rect_x r + rect_width r"
      "rect_y r \<le> ly + hh" "ly + hh < rect_y r + rect_height r"
      unfolding hw_def hh_def by simp_all
    let ?P = "(lx - rect_x ?e, ly - rect_y ?e)"
    have p1: "rect_x ?e \<le> lx" "rect_y ?e \<le> ly"
      unfolding ex using lb cb' by simp_all
    have "lx + cols ?t \<le> min (rect_x r - hw + (rect_width r + 2 * hw)) (cols data)"
      using lb cb' half by simp
    then have p2: "lx + cols ?t \<le> rect_x ?e + rect_width ?e" by (simp only: ex(2))
    have "ly + rows ?t \<le> min (rect_y r - hh + (rect_height r + 2 * hh)) (rows data)"
      using lb cb' half by simp
    then have p3: "ly + rows ?t \<le> rect_y ?e + rect_height ?e" by (simp only: ex(4))
    have P: "?P \<in> set (positions ?S)"
      unfolding in_positions Sd using p1 p2 p3 by simp
    have PS: "cell ?S ?P = mxw"
      using tr [OF P] W1 L by simp
    have "Ls = ?P"
    proof (rule minMaxLoc_unique_max [OF Sne ss])
      show "?P \<in> set (masked_positions ?S None)" using P by (simp add: masked_positions_def)
      show "\<forall>q\<in>set (masked_positions ?S None). cell ?S q \<le> cell ?S ?P"
        using tr W2 PS by (auto simp: masked_positions_def)
      show "\<forall>q\<in>set (masked_positions ?S None). scan_before q ?P \<longrightarrow> cell ?S q < cell ?S ?P"
      proof (intro ballI impI)
        fix q assume q: "q \<in> set (masked_positions ?S None)" and b: "scan_before q ?P"
        obtain i j where ij: "q = (i, j)" by (cases q)
        from b ij have "scan_before (i + rect_x ?e, j + rect_y ?e) (lx, ly)"
          using scan_before_shift [of i j "lx - rect_x ?e" "ly - rect_y ?e" "rect_x ?e" "rect_y ?e"]
          by simp
        with tr [of i j] q ij W3 L PS show "cell ?S q < cell ?S ?P"
          by (simp add: masked_positions_def)
      qed
    qed
    then have "m' = m"
      by (simp add: m m' found_mark_def L extended_roi_def [of data tpl None] whole_image_def)
    with whole m show ?thesis by simp
  qed
  from whole second show ?thesis by blast
qed

text \<open>
  Witness for C8: on the example image at threshold 1/2 the search of the one-pixel region
  at \<open>(1, 1)\<close> and the search of the whole image find the same mark.
\<close>

theorem Search_subregion_witness:
  "wf_Mat example_image \<and>
   Search example_image example_template (Some example_roi) None (1/2) = Inr (Some example_mark) \<and>
   rect_contains example_roi (center example_mark) \<and>
   Search example_image example_template None None (1/2) = Inr (Some example_mark)"
  using Search_subregion [of example_image example_template example_roi "1/2" example_mark]
  by (simp add: example_wf Search_by_extremes [OF example_extremes]
      Search_by_extremes [OF example_sub_extremes] example_found_mark)
    (simp add: rect_contains_def example_roi_def example_mark_def)

text \<open>
  Counterexample for C8 as stated: on the example image at threshold 3/2 the whole-image
  search finds the mark at \<open>(1, 1)\<close> (confidence 2), the region contains that point, and
  the search of the region returns not-found (confidence 1).
\<close>

theorem Search_subregion_counterexample:
  "Search example_image example_template None None (3/2) = Inr (Some example_mark) \<and>
   rect_contains example_roi (center example_mark) \<and>
   Search example_image example_template (Some example_roi) None (3/2) = Inr None"
  by (simp add: Search_by_extremes [OF example_extremes]
      Search_by_extremes [OF example_sub_extremes] example_found_mark)
    (simp add: rect_contains_def example_roi_def example_mark_def)

subsection \<open>Searching with a mask\<close>

text \<open>
  The shifted mask, case by case: the library refuses the shift rectangle when a
  half-size is 0; otherwise the two assertions on the size hold exactly when both sides of
  the template are even.
\<close>

lemma shifted_mask_cases:
  assumes cm: "crop msk ext = Some cm"
    and fit: "cols (search_template tpl) \<le> rect_width ext" "rows (search_template tpl) \<le> rect_height ext"
    and nn: "0 \<le> cols (search_template tpl)" "0 \<le> rows (search_template tpl)"
    and sd: "rows scores = rect_height ext - rows (search_template tpl) + 1"
            "cols scores = rect_width ext - cols (search_template tpl) + 1"
  shows "shifted_mask tpl ext scores msk =
     (if cols (search_template tpl) div 2 < 1 \<or> rows (search_template tpl) div 2 < 1
      then Inl CvException
      else if even (cols (search_template tpl)) \<and> even (rows (search_template tpl))
      then Inr (the (crop cm
             \<lparr>rect_x = cols (search_template tpl) div 2,
              rect_y = rows (search_template tpl) div 2,
              rect_width = rect_width ext - 2 * (cols (search_template tpl) div 2) + 1,
              rect_height = rect_height ext - 2 * (rows (search_template tpl) div 2) + 1\<rparr>))
      else Inl AssertionFailed)"
proof -
  define hw where "hw = cols (search_template tpl) div 2"
  define hh where "hh = rows (search_template tpl) div 2"
  define tw where "tw = cols (search_template tpl)"
  define th where "th = rows (search_template tpl)"
  have h: "0 \<le> hw" "0 \<le> hh" "2 * hw \<le> tw" "2 * hh \<le> th" "tw \<le> 2 * hw + 1" "th \<le> 2 * hh + 1"
    "even tw \<longleftrightarrow> tw = 2 * hw" "even th \<longleftrightarrow> th = 2 * hh"
    using nn unfolding hw_def hh_def tw_def th_def by (simp_all, presburger+)
  from crop_dims [OF cm] have d: "rows cm = rect_height ext" "cols cm = rect_width ext"
    by simp_all
  have r0: "Rect_of_points (hw, hh) (rect_width ext - hw, rect_height ext - hh) =
      \<lparr>rect_x = hw, rect_y = hh, rect_width = rect_width ext - 2 * hw,
       rect_height = rect_height ext - 2 * hh\<rparr>"
    using h fit unfolding tw_def [symmetric] th_def [symmetric]
    by (simp add: Rect_of_points_def min_def max_def)
  let ?sr = "\<lparr>rect_x = hw, rect_y = hh, rect_width = rect_width ext - 2 * hw + 1,
       rect_height = rect_height ext - 2 * hh + 1\<rparr>"
  have s: "shifted_mask tpl ext scores msk =
      (case crop cm ?sr of None \<Rightarrow> Inl CvException
       | Some shifted \<Rightarrow> if rows scores = rows shifted \<and> cols scores = cols shifted
                         then Inr shifted else Inl AssertionFailed)"
    by (simp add: shifted_mask_def cm Let_def TopLeft_def BottomRight_def d
        hw_def [symmetric] hh_def [symmetric] r0)
  have "shifted_mask tpl ext scores msk =
     (if hw < 1 \<or> hh < 1 then Inl CvException
      else if even tw \<and> even th then Inr (the (crop cm ?sr))
      else Inl AssertionFailed)"
  proof (cases "hw < 1 \<or> hh < 1")
    case True
    then have "crop cm ?sr = None"
      by (auto simp: crop_def d)
    with True s show ?thesis by simp
  next
    case False
    with h fit have "crop cm ?sr \<noteq> None"
      unfolding tw_def [symmetric] th_def [symmetric] by (simp add: crop_def d)
    then obtain sh where sh: "crop cm ?sr = Some sh" by blast
    from crop_dims [OF sh] have "rows sh = rect_height ext - 2 * hh + 1"
      "cols sh = rect_width ext - 2 * hw + 1" by simp_all
    with sd h have "rows scores = rows sh \<and> cols scores = cols sh \<longleftrightarrow> even tw \<and> even th"
      unfolding tw_def [symmetric] th_def [symmetric] by auto
    with False s sh show ?thesis by simp
  qed
  then show ?thesis unfolding hw_def hh_def tw_def th_def .
qed

lemma Search_mask_odd_template:
  assumes wf: "wf_Mat data" and ns: "\<not> small_roi data tpl roi"
    and nn: "0 \<le> cols (search_template tpl)" "0 \<le> rows (search_template tpl)"
    and od: "odd (cols (search_template tpl)) \<or> odd (rows (search_template tpl))"
  shows "\<exists>e. Search data tpl roi (Some msk) thr = Inl e"
proof -
  let ?e = "extended_roi data tpl roi"
  from match_result_dims [OF wf, of tpl roi] obtain scores where
    sc: "match_result data tpl roi = Inr scores"
      "rows scores = rect_height ?e - rows (search_template tpl) + 1"
      "cols scores = rect_width ?e - cols (search_template tpl) + 1" by blast
  from ns have fit: "cols (search_template tpl) \<le> rect_width ?e"
    "rows (search_template tpl) \<le> rect_height ?e"
    by (simp_all add: small_roi_def)
  have "\<exists>e. shifted_mask tpl ?e scores msk = Inl e"
  proof (cases "crop msk ?e")
    case None
    then show ?thesis by (simp add: shifted_mask_def)
  next
    case (Some cm)
    from shifted_mask_cases [OF Some fit nn sc(2,3)] od show ?thesis by auto
  qed
  with ns sc(1) show ?thesis
    by (auto simp: Search_def search_extremes_def)
qed

text \<open>
  When a masked search does find a mark (which needs a template of even sides), and the
  threshold is not negative, the center of the mark is a pixel that the mask admits.
\<close>

lemma Search_masked_location:
  assumes wfm: "wf_Mat msk"
    and thr: "0 \<le> thr"
    and nn: "0 \<le> cols (search_template tpl)" "0 \<le> rows (search_template tpl)"
    and found: "Search data tpl roi (Some msk) thr = Inr (Some m)"
  shows "\<exists>i j. center m = (real_of_int i, real_of_int j) \<and> cell msk (i, j) \<noteq> 0"
proof -
  let ?e = "extended_roi data tpl roi"
  let ?hw = "cols (search_template tpl) div 2" and ?hh = "rows (search_template tpl) div 2"
  from found obtain mn mx lmn lmx where
    e: "search_extremes data tpl roi (Some msk) = Inr (Some (mn, mx, lmn, lmx))"
    and lt: "thr < mx - mn" and m: "m = found_mark data tpl roi lmx"
    by (rule Search_Some_extremes)
  from e have ns: "\<not> small_roi data tpl roi" by (rule search_extremes_Some_not_small)
  from search_extremes_Some_cases [OF e] obtain scores sh where
    sc: "match_result data tpl roi = Inr scores"
    and sh: "shifted_mask tpl ?e scores msk = Inr sh"
    and x: "minMaxLoc scores (Some sh) = (mn, mx, lmn, lmx)"
    by auto
  from sh obtain cm where cm: "crop msk ?e = Some cm"
    by (auto simp: shifted_mask_def split: option.splits)
  from sc obtain region where "crop data ?e = Some region"
    and "scores = matchTemplate region (search_template tpl)"
    by (auto simp: match_result_def split: option.splits)
  with crop_dims [of data ?e region]
  have sd: "rows scores = rect_height ?e - rows (search_template tpl) + 1"
    "cols scores = rect_width ?e - cols (search_template tpl) + 1"
    by (simp_all add: matchTemplate_dims)
  from ns have fit: "cols (search_template tpl) \<le> rect_width ?e"
    "rows (search_template tpl) \<le> rect_height ?e"
    by (simp_all add: small_roi_def)
  let ?sr = "\<lparr>rect_x = ?hw, rect_y = ?hh,
              rect_width = rect_width ?e - 2 * ?hw + 1,
              rect_height = rect_height ?e - 2 * ?hh + 1\<rparr>"
  from shifted_mask_cases [OF cm fit nn sd] sh
  have h1: "\<not> (?hw < 1 \<or> ?hh < 1)"
    and ev: "even (cols (search_template tpl)) \<and> even (rows (search_template tpl))"
    and she: "sh = the (crop cm ?sr)"
    by (auto split: if_splits)
  have "crop cm ?sr \<noteq> None"
    using h1 fit crop_dims [OF cm] ev by (auto simp: crop_def)
  with she have csh: "crop cm ?sr = Some sh" by auto
  have ne: "masked_positions scores (Some sh) \<noteq> []"
  proof
    assume "masked_positions scores (Some sh) = []"
    from minMaxLoc_no_cell [OF this] x have "mx - mn = 0" by simp
    with lt thr show False by simp
  qed
  from minMaxLoc_extremes [OF ne x] have
    "lmx \<in> set (masked_positions scores (Some sh))" by blast
  then have in_sc: "lmx \<in> set (positions scores)" and nz: "cell sh lmx \<noteq> 0"
    by (simp_all add: masked_positions_def)
  obtain lx ly where L: "lmx = (lx, ly)" by (cases lmx)
  from in_sc L sd have lb: "0 \<le> lx" "lx < rect_width ?e - cols (search_template tpl) + 1"
    "0 \<le> ly" "ly < rect_height ?e - rows (search_template tpl) + 1"
    by (simp_all add: in_positions)
  from ev have tw: "cols (search_template tpl) = 2 * ?hw" "rows (search_template tpl) = 2 * ?hh"
    by auto
  have wcm: "wf_Mat cm" using cm wfm by (rule crop_wf)
  have "cell sh (lx, ly) = cell cm (?hw + lx, ?hh + ly)"
    using crop_cell [OF csh wcm, of lx ly] lb tw by simp
  also have "\<dots> = cell msk (rect_x ?e + (?hw + lx), rect_y ?e + (?hh + ly))"
    using crop_cell [OF cm wfm, of "?hw + lx" "?hh + ly"] lb tw h1 by simp
  finally have "cell msk (lx + ?hw + rect_x ?e, ly + ?hh + rect_y ?e) \<noteq> 0"
    using nz L by (simp add: add_ac)
  moreover have "center m = (real_of_int (lx + ?hw + rect_x ?e), real_of_int (ly + ?hh + rect_y ?e))"
    by (simp add: m found_mark_def L)
  ultimately show ?thesis by blast
qed

text \<open>
  Claim C6, at a failing input: the 5-by-5 image, the circle at \<open>(5/2, 5/2)\<close> with radius
  \<open>3/2\<close> (a 3-by-3 template) and a mask that admits every pixel. The region check
  passes, the score map is 3 by 3, the shifted mask is 4 by 4, and the assertion on the
  sizes fails.
\<close>

theorem Search_mask_odd_assertion:
  "InitTrackerData (round_binary 24) odd_image odd_mark TemplateData_new =
     Inr (True, odd_template) \<and>
   Search odd_image odd_template None (Some full_mask) 0 = Inl AssertionFailed"
proof -
  have i: "InitTrackerData (round_binary 24) odd_image odd_mark TemplateData_new =
      Inr (True, odd_template)"
    by (simp add: InitTrackerData_def odd_image_def odd_mark_def odd_template_def
        crop_def to_int_def round_binary_numeral)
  have w: "wf_Mat odd_image" by (simp add: odd_image_def wf_Mat_def)
  have e: "extended_roi odd_image odd_template None =
      \<lparr>rect_x = 0, rect_y = 0, rect_width = 5, rect_height = 5\<rparr>"
    by (simp add: extended_roi_def whole_image_def odd_image_def)
  have ns: "\<not> small_roi odd_image odd_template None"
    by (simp add: small_roi_def e) (simp add: odd_template_def)
  from match_result_dims [OF w, of odd_template None] obtain scores where
    sc0: "match_result odd_image odd_template None = Inr scores"
      "rows scores = rect_height (extended_roi odd_image odd_template None) -
         rows (search_template odd_template) + 1"
      "cols scores = rect_width (extended_roi odd_image odd_template None) -
         cols (search_template odd_template) + 1"
    by blast
  from sc0(2,3) have sc: "rows scores = 3" "cols scores = 3"
    unfolding e by (simp_all add: odd_template_def)
  have cm: "crop full_mask \<lparr>rect_x = 0, rect_y = 0, rect_width = 5, rect_height = 5\<rparr> =
      Some full_mask"
    by (simp add: crop_def full_mask_def)
  have "shifted_mask odd_template \<lparr>rect_x = 0, rect_y = 0, rect_width = 5, rect_height = 5\<rparr>
      scores full_mask = Inl AssertionFailed"
    by (simp add: shifted_mask_def cm Let_def TopLeft_def BottomRight_def Rect_of_points_def)
      (simp add: full_mask_def odd_template_def crop_def sc)
  with ns sc0(1) have "Search odd_image odd_template None (Some full_mask) 0 = Inl AssertionFailed"
    by (simp add: Search_def search_extremes_def e)
  with i show ?thesis by simp
qed

end
